theory Spec2Isabelle
  imports Main "HOL-Library.Word" "HOL-Library.Signed_Division"
begin

unbundle bit_operations_syntax

section \<open>Data model (rawimage.h)\<close>

text \<open>
  A C \<open>int\<close> is a 32-bit two's complement word: \<open>+\<close> and \<open>-\<close> wrap around, \<open>/\<close> is the
  signed division that truncates towards zero. \<open>unsigned long\<close> indices, sizes and match
  counters are natural numbers: an index is below the size of an allocated array and a
  counter is at most twice the number of pixels of the input file, so none of them reaches
  \<open>2 ^ 64\<close>.
\<close>

type_synonym cint = "32 word"

definition c_div :: "cint \<Rightarrow> cint \<Rightarrow> cint" where
  "c_div a b = word_of_int (sint a sdiv sint b)"

definition c_mod :: "cint \<Rightarrow> cint \<Rightarrow> cint" where
  "c_mod a b = word_of_int (sint a smod sint b)"

record Pixel =
  red :: cint
  green :: cint
  blue :: cint

record Image =
  length_img :: nat
  lines :: nat
  linesize :: nat
  pixels :: "Pixel list list"

datatype InitialisationType = NONE | ZERO | RANDOM

text \<open>\<open>img.pixels[l][p]\<close> and the assignment to it.\<close>

definition pixel_at :: "Image \<Rightarrow> nat \<Rightarrow> nat \<Rightarrow> Pixel" where
  "pixel_at im l p = pixels im ! l ! p"

definition set_pixel :: "Image \<Rightarrow> nat \<Rightarrow> nat \<Rightarrow> Pixel \<Rightarrow> Image" where
  "set_pixel im l p v = im\<lparr>pixels := (pixels im)[l := (pixels im ! l)[p := v]]\<rparr>"

text \<open>
  An image as \<open>ImageData\<close> allocates it: \<open>lines\<close> rows of \<open>linesize\<close> pixels each.
\<close>

definition wf_image :: "Image \<Rightarrow> bool" where
  "wf_image im \<longleftrightarrow>
     length (pixels im) = lines im \<and> (\<forall>row \<in> set (pixels im). length row = linesize im)"

text \<open>
  A counted loop \<open>for (unsigned long i = a; i < n; ++i) body\<close> over a state. The bound is
  read when the loop is entered: the bounds of the program are \<open>lines\<close>, \<open>linesize\<close> and the
  length of the search list, which no loop body assigns.
\<close>

function for_loop :: "nat \<Rightarrow> nat \<Rightarrow> (nat \<Rightarrow> 's \<Rightarrow> 's) \<Rightarrow> 's \<Rightarrow> 's" where
  "for_loop i n body s = (if i < n then for_loop (Suc i) n body (body i s) else s)"
  by pat_completeness auto
termination
  by (relation "measure (\<lambda>(i, n, body, s). n - i)") auto

declare for_loop.simps [simp del]

definition Greyscale :: "Pixel \<Rightarrow> Pixel" where
  "Greyscale p =
     (let avg = c_div (red p + green p + blue p) 3
      in p\<lparr>red := avg, green := avg, blue := avg\<rparr>)"

definition XOR_px :: "Pixel \<Rightarrow> cint \<Rightarrow> Pixel" where
  "XOR_px p val = p\<lparr>red := red p XOR val, green := green p XOR val, blue := blue p XOR val\<rparr>"

section \<open>The sequential reference (process-b.c)\<close>

record State =
  img :: Image
  search :: Image
  counter :: "nat list"

text \<open>The three-channel comparison of both search loops.\<close>

definition px_match :: "Pixel \<Rightarrow> Pixel \<Rightarrow> bool" where
  "px_match a b \<longleftrightarrow> red a = red b \<and> green a = green b \<and> blue a = blue b"

text \<open>One search loop over \<open>i\<close>, for the pixel at line \<open>l\<close>, column \<open>p\<close>.\<close>

definition search_body :: "nat \<Rightarrow> nat \<Rightarrow> nat \<Rightarrow> State \<Rightarrow> State" where
  "search_body l p i s =
     (if px_match (pixel_at (img s) l p) (pixel_at (search s) 0 i)
      then s\<lparr>counter := (counter s)[i := counter s ! i + 1]\<rparr>
      else s)"

definition search_loop :: "nat \<Rightarrow> nat \<Rightarrow> State \<Rightarrow> State" where
  "search_loop l p s = for_loop 0 (length_img (search s)) (search_body l p) s"

text \<open>
  The accumulation loop of the bleed: \<open>rav\<close>, \<open>gav\<close>, \<open>bav\<close> are kept in a pixel.
\<close>

definition zero_px :: Pixel where
  "zero_px = \<lparr>red = 0, green = 0, blue = 0\<rparr>"

definition av_body :: "Image \<Rightarrow> nat \<Rightarrow> nat \<Rightarrow> Pixel \<Rightarrow> Pixel" where
  "av_body im l i av =
     \<lparr>red = red av + red (pixel_at im l i),
      green = green av + green (pixel_at im l i),
      blue = blue av + blue (pixel_at im l i)\<rparr>"

text \<open>The body of \<open>if (p>0) { ... }\<close> in process-b.c, lines 62 to 89.\<close>

definition bleed :: "nat \<Rightarrow> nat \<Rightarrow> Image \<Rightarrow> Image" where
  "bleed l p im =
     (if p > 0 then
        (let pixlen0 = (10 :: nat);
             startpix = (if p > pixlen0 then p - pixlen0 else 0);
             pixlen = (if p > pixlen0 then pixlen0 else p);
             av = for_loop startpix p (av_body im l) zero_px;
             rav = c_div (red av) (of_nat pixlen);
             gav = c_div (green av) (of_nat pixlen);
             bav = c_div (blue av) (of_nat pixlen);
             cur = pixel_at im l p
         in set_pixel im l p
              \<lparr>red = red cur + c_div (rav - red cur) 3,
               green = green cur + c_div (gav - green cur) 3,
               blue = blue cur + c_div (bav - blue cur) 3\<rparr>)
      else im)"

definition transform :: "nat \<Rightarrow> nat \<Rightarrow> Image \<Rightarrow> Image" where
  "transform l p im =
     (let im1 = bleed l p im;
          im2 = set_pixel im1 l p (Greyscale (pixel_at im1 l p))
      in set_pixel im2 l p (XOR_px (pixel_at im2 l p) 13))"

text \<open>The body of the loop over \<open>p\<close>, lines 48 to 107.\<close>

definition pixel_b :: "nat \<Rightarrow> State \<Rightarrow> State" where
  "pixel_b p s =
     (let s1 = search_loop 0 p s;
          s2 = s1\<lparr>img := transform 0 p (img s1)\<rparr>
      in search_loop 0 p s2)"

definition process_b :: "State \<Rightarrow> State" where
  "process_b s = for_loop 0 (linesize (img s)) pixel_b s"

section \<open>Loading and writing images (rawimage.h)\<close>

text \<open>
  What the program is run in: the files that can be opened for reading, as pixel
  sequences; the names that can be opened for writing; the content of pixel memory as
  \<open>malloc\<close> returns it, for the image allocated first (the grid, \<open>0\<close>) and second (the
  search list, \<open>1\<close>); the values \<open>rand\<close> returns; whether each allocation succeeds; the
  content of the counter array as \<open>malloc\<close> returns it.
\<close>

record Env =
  files :: "string \<Rightarrow> Pixel list option"
  writable :: "string \<Rightarrow> bool"
  heap :: "nat \<Rightarrow> nat \<Rightarrow> nat \<Rightarrow> Pixel"
  rand :: "nat \<Rightarrow> cint"
  lines_alloc_ok :: bool
  row_alloc_ok :: "nat \<Rightarrow> bool"
  counter_alloc_ok :: bool
  counter_mem :: "nat \<Rightarrow> nat"

text \<open>How a run ends: \<open>FatalError\<close> with its message, a write through a null pointer, or
  the end of \<open>main\<close> with the pixels written to the output file and the counters printed.\<close>

datatype outcome = Fatal string | NullDeref | Done "Pixel list" "nat list"

text \<open>The shape \<open>ImageData\<close> computes: lines, padded length, line size.\<close>

definition ImageData_shape :: "nat \<Rightarrow> nat \<Rightarrow> nat \<times> nat \<times> nat" where
  "ImageData_shape length0 linesize0 =
     (if linesize0 = 0 then (1, length0, length0)
      else
        (let tlines = length0 div linesize0;
             remainder = length0 - tlines * linesize0
         in if remainder > 0
            then (tlines + 1, length0 + (linesize0 - remainder), linesize0)
            else (tlines, length0, linesize0)))"

text \<open>The initialisation of one pixel; the second component counts the calls of \<open>rand\<close>.\<close>

definition init_body ::
  "Env \<Rightarrow> InitialisationType \<Rightarrow> nat \<Rightarrow> nat \<Rightarrow> Image \<times> nat \<Rightarrow> Image \<times> nat" where
  "init_body env initialisation l p st =
     (let (im, k) = st
      in if initialisation = RANDOM
         then (set_pixel im l p
                 \<lparr>red = c_mod (rand env k) 255,
                  green = c_mod (rand env (k + 1)) 255,
                  blue = c_mod (rand env (k + 2)) 255\<rparr>, k + 3)
         else (set_pixel im l p \<lparr>red = 0, green = 0, blue = 0\<rparr>, k))"

definition init_line ::
  "Env \<Rightarrow> InitialisationType \<Rightarrow> nat \<Rightarrow> Image \<times> nat \<Rightarrow> Image \<times> nat" where
  "init_line env initialisation l st =
     (if initialisation \<noteq> NONE
      then for_loop 0 (linesize (fst st)) (init_body env initialisation l) st
      else st)"

definition ImageData ::
  "Env \<Rightarrow> nat \<Rightarrow> nat \<Rightarrow> nat \<Rightarrow> InitialisationType \<Rightarrow> string + Image" where
  "ImageData env a length0 linesize0 initialisation =
     (let (tlines, length1, linesize1) = ImageData_shape length0 linesize0
      in if \<not> lines_alloc_ok env then Inl ''Cannot allocate memory for line data''
         else if list_ex (\<lambda>l. \<not> row_alloc_ok env l) [0..<tlines]
         then Inl ''Cannot allocate Pixel memory for a line''
         else
           (let im = \<lparr>length_img = length1, lines = tlines, linesize = linesize1,
                      pixels = map (\<lambda>l. map (heap env a l) [0..<linesize1]) [0..<tlines]\<rparr>
            in Inr (fst (for_loop 0 tlines (init_line env initialisation) (im, 0)))))"

text \<open>
  The body of the loading loop. \<open>fread\<close> of one pixel at the end of the file reads nothing
  and leaves the pixel as it was allocated. The variable \<open>counter\<close> is declared as 0 and
  never assigned in \<open>LoadFile\<close>.
\<close>

record LoadSt =
  ld_img :: Image
  ld_pos :: nat

definition load_body :: "Pixel list \<Rightarrow> nat \<Rightarrow> nat \<Rightarrow> nat \<Rightarrow> nat \<Rightarrow> LoadSt \<Rightarrow> LoadSt" where
  "load_body file length0 counter0 l p st =
     (if counter0 < length0
      then (if ld_pos st < length file
            then st\<lparr>ld_img := set_pixel (ld_img st) l p (file ! ld_pos st),
                    ld_pos := ld_pos st + 1\<rparr>
            else st)
      else st\<lparr>ld_img := set_pixel (ld_img st) l p \<lparr>red = 0, green = 0, blue = 0\<rparr>\<rparr>)"

text \<open>A null file name cannot be opened.\<close>

definition fopen_read :: "Env \<Rightarrow> string option \<Rightarrow> Pixel list option" where
  "fopen_read env filename = (case filename of None \<Rightarrow> None | Some f \<Rightarrow> files env f)"

definition LoadFile :: "Env \<Rightarrow> nat \<Rightarrow> string option \<Rightarrow> nat \<Rightarrow> string + Image" where
  "LoadFile env a filename linesize0 =
     (case fopen_read env filename of
        None \<Rightarrow> Inl ''Cannot open file for reading''
      | Some file \<Rightarrow>
          (let length0 = length file
           in case ImageData env a length0 linesize0 NONE of
                Inl e \<Rightarrow> Inl e
              | Inr im \<Rightarrow>
                  (let counter0 = 0
                   in Inr (ld_img
                        (for_loop 0 (lines im)
                           (\<lambda>l. for_loop 0 (linesize im) (load_body file length0 counter0 l))
                           \<lparr>ld_img = im, ld_pos = 0\<rparr>)))))"

definition WriteFile :: "Env \<Rightarrow> string option \<Rightarrow> Image \<Rightarrow> string + Pixel list" where
  "WriteFile env filename im =
     (case filename of
        None \<Rightarrow> Inl ''Cannot open file for writing''
      | Some f \<Rightarrow>
          if \<not> writable env f then Inl ''Cannot open file for writing''
          else Inr (for_loop 0 (lines im)
                      (\<lambda>l. for_loop 0 (linesize im) (\<lambda>p out. out @ [pixel_at im l p])) []))"

section \<open>The main function of process-b.c\<close>

text \<open>\<open>av[k]\<close>: the arguments, and the null pointer that ends them.\<close>

definition av_at :: "string list \<Rightarrow> nat \<Rightarrow> string option" where
  "av_at av k = (if k < length av then Some (av ! k) else None)"

text \<open>
  Lines 39 to 41 of process-b.c: the counter array is allocated and set to zero, with no
  test of what \<open>malloc\<close> returned.
\<close>

definition alloc_counter_b :: "Env \<Rightarrow> nat \<Rightarrow> outcome + nat list" where
  "alloc_counter_b env n =
     (if counter_alloc_ok env
      then Inr (for_loop 0 n (\<lambda>i c. c[i := 0]) (map (counter_mem env) [0..<n]))
      else if 0 < n then Inl NullDeref
      else Inr [])"

text \<open>Lines 47 to 49 of process-b_tc3.c (and the same lines of the other variants).\<close>

definition alloc_counter_tc :: "Env \<Rightarrow> nat \<Rightarrow> outcome + nat list" where
  "alloc_counter_tc env n =
     (if \<not> counter_alloc_ok env then Inl (Fatal ''malloc failed for counter'')
      else Inr (for_loop 0 n (\<lambda>i c. c[i := 0]) (map (counter_mem env) [0..<n])))"

text \<open>
  \<open>main\<close> of process-b.c: the first component lists the file names \<open>fopen\<close> was called
  with, in order; \<open>ac\<close> is the length of \<open>av\<close>.
\<close>

definition main_b :: "Env \<Rightarrow> string list \<Rightarrow> string option list \<times> outcome" where
  "main_b env av =
     (if length av < 3
      then ([], Fatal ''Usage: create in_filename out_filename search_filename'')
      else
        (let infilename = av_at av 1;
             outfilename = av_at av 2;
             searchfilename = av_at av 3
         in case LoadFile env 0 infilename 0 of
              Inl e \<Rightarrow> ([infilename], Fatal e)
            | Inr im \<Rightarrow>
                (case LoadFile env 1 searchfilename 0 of
                   Inl e \<Rightarrow> ([infilename, searchfilename], Fatal e)
                 | Inr srch \<Rightarrow>
                     (case alloc_counter_b env (length_img srch) of
                        Inl e \<Rightarrow> ([infilename, searchfilename], e)
                      | Inr cnt \<Rightarrow>
                          (let s = process_b \<lparr>img = im, search = srch, counter = cnt\<rparr>
                           in case WriteFile env outfilename (img s) of
                                Inl e \<Rightarrow> ([infilename, searchfilename, outfilename], Fatal e)
                              | Inr out \<Rightarrow>
                                  ([infilename, searchfilename, outfilename],
                                   Done out (counter s)))))))"

section \<open>The transformation in the parallel variants\<close>

text \<open>
  The variants guard the division with \<open>if (pixlen > 0)\<close>; the rest of the bleed is the
  one of process-b.c.
\<close>

definition bleed_tc :: "nat \<Rightarrow> nat \<Rightarrow> Image \<Rightarrow> Image" where
  "bleed_tc l p im =
     (if p > 0 then
        (let pixlen0 = (10 :: nat);
             startpix = (if p > pixlen0 then p - pixlen0 else 0);
             pixlen = (if p > pixlen0 then pixlen0 else p);
             av = for_loop startpix p (av_body im l) zero_px
         in if pixlen > 0 then
              (let rav = c_div (red av) (of_nat pixlen);
                   gav = c_div (green av) (of_nat pixlen);
                   bav = c_div (blue av) (of_nat pixlen);
                   cur = pixel_at im l p
               in set_pixel im l p
                    \<lparr>red = red cur + c_div (rav - red cur) 3,
                     green = green cur + c_div (gav - green cur) 3,
                     blue = blue cur + c_div (bav - blue cur) 3\<rparr>)
            else im)
      else im)"

definition transform_tc :: "nat \<Rightarrow> nat \<Rightarrow> Image \<Rightarrow> Image" where
  "transform_tc l p im =
     (let im1 = bleed_tc l p im;
          im2 = set_pixel im1 l p (Greyscale (pixel_at im1 l p))
      in set_pixel im2 l p (XOR_px (pixel_at im2 l p) 13))"

section \<open>The phased executor (process-b_tc2.c)\<close>

text \<open>
  One team of threads, numbered from 0, runs the parallel region. What the OpenMP runtime
  decides is a parameter of the model: which thread executes each \<open>single\<close> block
  (\<open>single_by p k\<close>, for the \<open>k\<close>-th \<open>single\<close> of the iteration \<open>p\<close>) and which thread executes
  each iteration of a work-shared loop (\<open>for_by p k i\<close>, for the iteration \<open>i\<close> of the \<open>k\<close>-th
  \<open>omp for\<close> of the iteration \<open>p\<close>), under \<open>schedule(runtime)\<close>.

  The scalars \<open>r0, g0, b0\<close> and \<open>r1, g1, b1\<close> are declared inside the parallel region:
  every thread has its own. They are assigned inside a \<open>single\<close> block with no
  \<open>copyprivate\<close> clause, so only the thread that executes the block holds the pixel; in
  every other thread they are not initialised, and \<open>uninit p j t\<close> is what thread \<open>t\<close> then
  reads from them (\<open>j = 0\<close> for \<open>r0, g0, b0\<close> and \<open>j = 1\<close> for \<open>r1, g1, b1\<close>).

  The iterations of a work-shared search loop touch distinct counters, and two barriers
  separate the loop from the writes to the pixel, so the model runs them in index order.
\<close>

record Team =
  nthreads :: nat
  single_by :: "nat \<Rightarrow> nat \<Rightarrow> nat"
  for_by :: "nat \<Rightarrow> nat \<Rightarrow> nat \<Rightarrow> nat"
  uninit :: "nat \<Rightarrow> nat \<Rightarrow> nat \<Rightarrow> Pixel"

definition wf_team :: "Team \<Rightarrow> bool" where
  "wf_team tm \<longleftrightarrow>
     0 < nthreads tm \<and> (\<forall>p k. single_by tm p k < nthreads tm)
     \<and> (\<forall>p k i. for_by tm p k i < nthreads tm)"

text \<open>The private scalars of thread \<open>t\<close> after the \<open>k\<close>-th \<open>single\<close> block has copied the pixel.\<close>

definition capture :: "Team \<Rightarrow> nat \<Rightarrow> nat \<Rightarrow> nat \<Rightarrow> Image \<Rightarrow> nat \<Rightarrow> Pixel" where
  "capture tm p k j im t =
     (if t = single_by tm p k then pixel_at im 0 p else uninit tm p j t)"

text \<open>One iteration of a work-shared search loop, by the thread it is given to.\<close>

definition search_body_tc2 :: "(nat \<Rightarrow> Pixel) \<Rightarrow> (nat \<Rightarrow> nat) \<Rightarrow> nat \<Rightarrow> State \<Rightarrow> State" where
  "search_body_tc2 priv owner i s =
     (if px_match (priv (owner i)) (pixel_at (search s) 0 i)
      then s\<lparr>counter := (counter s)[i := counter s ! i + 1]\<rparr>
      else s)"

definition pixel_b_tc2 :: "Team \<Rightarrow> nat \<Rightarrow> State \<Rightarrow> State" where
  "pixel_b_tc2 tm p s =
     (let priv0 = capture tm p 0 0 (img s);
          s1 = for_loop 0 (length_img (search s)) (search_body_tc2 priv0 (for_by tm p 0)) s;
          s2 = s1\<lparr>img := transform_tc 0 p (img s1)\<rparr>;
          priv1 = capture tm p 2 1 (img s2)
      in for_loop 0 (length_img (search s2)) (search_body_tc2 priv1 (for_by tm p 1)) s2)"

definition process_b_tc2 :: "Team \<Rightarrow> State \<Rightarrow> State" where
  "process_b_tc2 tm s = for_loop 0 (linesize (img s)) (pixel_b_tc2 tm) s"

section \<open>The tiled executor (process-b_tc4.c)\<close>

text \<open>
  The shared state and the array \<open>local\<close> of every thread; \<open>calloc\<close> is taken to succeed.
\<close>

record TState = State +
  local :: "nat list list"

definition calloc_local :: "nat \<Rightarrow> State \<Rightarrow> TState" where
  "calloc_local n s =
     \<lparr>img = img s, search = search s, counter = counter s,
      local = replicate n (replicate (length_img (search s)) 0)\<rparr>"

definition local_incr :: "nat \<Rightarrow> nat \<Rightarrow> TState \<Rightarrow> TState" where
  "local_incr t i s = s\<lparr>local := (local s)[t := (local s ! t)[i := local s ! t ! i + 1]]\<rparr>"

text \<open>One tile, by the thread \<open>owner tb\<close> with its own scalars and its own \<open>local\<close>.\<close>

definition tile_body :: "nat \<Rightarrow> (nat \<Rightarrow> Pixel) \<Rightarrow> (nat \<Rightarrow> nat) \<Rightarrow> nat \<Rightarrow> TState \<Rightarrow> TState" where
  "tile_body TILE_I priv owner tb s =
     (let start = tb * TILE_I;
          end0 = start + TILE_I;
          end1 = (if end0 > length_img (search s) then length_img (search s) else end0)
      in for_loop start end1
           (\<lambda>i s. if px_match (priv (owner tb)) (pixel_at (search s) 0 i)
                   then local_incr (owner tb) i s else s) s)"

definition tiled_search :: "nat \<Rightarrow> (nat \<Rightarrow> Pixel) \<Rightarrow> (nat \<Rightarrow> nat) \<Rightarrow> TState \<Rightarrow> TState" where
  "tiled_search TILE_I priv owner s =
     (let tiles = (length_img (search s) + TILE_I - 1) div TILE_I
      in for_loop 0 tiles (tile_body TILE_I priv owner) s)"

definition pixel_b_tc4 :: "nat \<Rightarrow> Team \<Rightarrow> nat \<Rightarrow> TState \<Rightarrow> TState" where
  "pixel_b_tc4 TILE_I tm p s =
     (let priv0 = capture tm p 0 0 (img s);
          s1 = tiled_search TILE_I priv0 (for_by tm p 0) s;
          s2 = s1\<lparr>img := transform_tc 0 p (img s1)\<rparr>;
          priv1 = capture tm p 2 1 (img s2)
      in tiled_search TILE_I priv1 (for_by tm p 1) s2)"

text \<open>The critical section at the end, once by every thread.\<close>

definition merge_critical :: "nat \<Rightarrow> TState \<Rightarrow> TState" where
  "merge_critical t s =
     for_loop 0 (length_img (search s))
       (\<lambda>i s. s\<lparr>counter := (counter s)[i := counter s ! i + local s ! t ! i]\<rparr>) s"

definition process_b_tc4 :: "nat \<Rightarrow> Team \<Rightarrow> State \<Rightarrow> TState" where
  "process_b_tc4 TILE_I tm s =
     (let s0 = calloc_local (nthreads tm) s;
          s1 = for_loop 0 (linesize (img s0)) (pixel_b_tc4 TILE_I tm) s0
      in for_loop 0 (nthreads tm) merge_critical s1)"

section \<open>The row-parallel variants (process-a_tc3.c and process-a_tc2.c)\<close>

text \<open>
  Atomic increments of the shared counters (process-a_tc3.c). The rows are run in index
  order: a row loop iteration reads and writes its own row only, and the increments are
  atomic.
\<close>

definition pixel_a_tc3 :: "nat \<Rightarrow> nat \<Rightarrow> State \<Rightarrow> State" where
  "pixel_a_tc3 l p s =
     (let s1 = search_loop l p s;
          s2 = s1\<lparr>img := transform_tc l p (img s1)\<rparr>
      in search_loop l p s2)"

definition process_a_tc3 :: "State \<Rightarrow> State" where
  "process_a_tc3 s =
     for_loop 0 (lines (img s)) (\<lambda>l s. for_loop 0 (linesize (img s)) (pixel_a_tc3 l) s) s"

text \<open>
  Thread-local counters (process-a_tc2.c): the row \<open>l\<close> is run by the thread \<open>row_by l\<close>,
  which counts in its own array \<open>local\<close>.
\<close>

definition search_local :: "nat \<Rightarrow> nat \<Rightarrow> nat \<Rightarrow> TState \<Rightarrow> TState" where
  "search_local t l p s =
     for_loop 0 (length_img (search s))
       (\<lambda>i s. if px_match (pixel_at (img s) l p) (pixel_at (search s) 0 i)
               then local_incr t i s else s) s"

definition pixel_a_tc2 :: "nat \<Rightarrow> nat \<Rightarrow> nat \<Rightarrow> TState \<Rightarrow> TState" where
  "pixel_a_tc2 t l p s =
     (let s1 = search_local t l p s;
          s2 = s1\<lparr>img := transform_tc l p (img s1)\<rparr>
      in search_local t l p s2)"

definition row_a_tc2 :: "(nat \<Rightarrow> nat) \<Rightarrow> nat \<Rightarrow> TState \<Rightarrow> TState" where
  "row_a_tc2 row_by l s = for_loop 0 (linesize (img s)) (pixel_a_tc2 (row_by l) l) s"

definition rows_a_tc2 :: "(nat \<Rightarrow> nat) \<Rightarrow> TState \<Rightarrow> TState" where
  "rows_a_tc2 row_by s = for_loop 0 (lines (img s)) (row_a_tc2 row_by) s"

text \<open>
  The merge of process-a_tc2.c, lines 103 to 107, is itself a work-shared loop
  (\<open>omp for schedule(static)\<close>): the iteration \<open>i\<close> is executed once, by the thread
  \<open>merge_by i\<close>, which adds its own \<open>local[i]\<close>.
\<close>

definition merge_for :: "(nat \<Rightarrow> nat) \<Rightarrow> TState \<Rightarrow> TState" where
  "merge_for merge_by s =
     for_loop 0 (length_img (search s))
       (\<lambda>i s. s\<lparr>counter := (counter s)[i := counter s ! i + local s ! (merge_by i) ! i]\<rparr>) s"

definition process_a_tc2 :: "nat \<Rightarrow> (nat \<Rightarrow> nat) \<Rightarrow> (nat \<Rightarrow> nat) \<Rightarrow> State \<Rightarrow> TState" where
  "process_a_tc2 n row_by merge_by s =
     merge_for merge_by (rows_a_tc2 row_by (calloc_local n s))"

section \<open>Shape of an image\<close>

text \<open>The three shape fields of an image and the sizes of its allocated rows.\<close>

definition shape :: "Image \<Rightarrow> nat \<times> nat \<times> nat \<times> nat list" where
  "shape im = (length_img im, lines im, linesize im, map length (pixels im))"

section \<open>The bleed in the words of the specification\<close>

text \<open>
  Division of a signed 32-bit value by a positive count, truncating towards zero: the
  quotient of the absolute value, with the sign of the dividend.
\<close>

definition trunc_div :: "cint \<Rightarrow> nat \<Rightarrow> cint" where
  "trunc_div a n = word_of_int (sgn (sint a) * (\<bar>sint a\<bar> div int n))"

text \<open>
  Section 4.1, step 2: with \<open>n = min 10 p\<close>, the average of each channel over the \<open>n\<close>
  pixels at the columns \<open>p - n\<close> to \<open>p - 1\<close> of \<open>row\<close>, and a third of its difference to the
  current pixel \<open>cur\<close> added to \<open>cur\<close>.
\<close>

definition bleed_spec :: "Pixel list \<Rightarrow> nat \<Rightarrow> Pixel \<Rightarrow> Pixel" where
  "bleed_spec row p cur =
     (let n = min 10 p;
          cols = [p - n..<p];
          rav = trunc_div (sum_list (map (\<lambda>i. red (row ! i)) cols)) n;
          gav = trunc_div (sum_list (map (\<lambda>i. green (row ! i)) cols)) n;
          bav = trunc_div (sum_list (map (\<lambda>i. blue (row ! i)) cols)) n
      in \<lparr>red = red cur + trunc_div (rav - red cur) 3,
          green = green cur + trunc_div (gav - green cur) 3,
          blue = blue cur + trunc_div (bav - blue cur) 3\<rparr>)"

section \<open>The pass over one row, as a function of the row\<close>

text \<open>
  The pixel written at a column, from the pixels already written to its left and the
  pixel read at the column.
\<close>

definition new_px :: "Pixel list \<Rightarrow> Pixel \<Rightarrow> Pixel" where
  "new_px prev cur =
     XOR_px (Greyscale (if prev = [] then cur else bleed_spec prev (length prev) cur)) 13"

definition row_out :: "Pixel list \<Rightarrow> Pixel list" where
  "row_out row = fold (\<lambda>cur out. out @ [new_px out cur]) row []"

text \<open>The matches of a search pixel \<open>t\<close> in a row, before and after the transformation.\<close>

definition count_px :: "Pixel \<Rightarrow> Pixel list \<Rightarrow> nat" where
  "count_px t xs = length (filter (\<lambda>c. px_match c t) xs)"

definition row_hits :: "Pixel list \<Rightarrow> Pixel \<Rightarrow> nat" where
  "row_hits row t = count_px t row + count_px t (row_out row)"

section \<open>The concrete scenario of the specification\<close>

definition scenario :: State where
  "scenario =
     \<lparr>img = \<lparr>length_img = 3, lines = 1, linesize = 3,
              pixels = [[\<lparr>red = 10, green = 20, blue = 30\<rparr>,
                         \<lparr>red = 40, green = 50, blue = 60\<rparr>,
                         \<lparr>red = 70, green = 80, blue = 90\<rparr>]]\<rparr>,
      search = \<lparr>length_img = 1, lines = 1, linesize = 1,
                 pixels = [[\<lparr>red = 10, green = 20, blue = 30\<rparr>]]\<rparr>,
      counter = [0]\<rparr>"


section \<open>The state of the reference when an iteration starts\<close>

definition state_before :: "nat \<Rightarrow> State \<Rightarrow> State" where
  "state_before p s = for_loop 0 p pixel_b s"

section \<open>One thread's view of the state\<close>

text \<open>The shared state with the array \<open>local\<close> of thread \<open>t\<close> in the place of the counters.\<close>

definition proj :: "nat \<Rightarrow> TState \<Rightarrow> State" where
  "proj t s = \<lparr>img = img s, search = search s, counter = local s ! t\<rparr>"

text \<open>The body of the row loop of process-a_tc3.c.\<close>

definition row_a_tc3 :: "nat \<Rightarrow> State \<Rightarrow> State" where
  "row_a_tc3 l s = for_loop 0 (linesize (img s)) (pixel_a_tc3 l) s"

text \<open>\<open>1\<close> for a match and \<open>0\<close> for none.\<close>

definition hit :: "Pixel \<Rightarrow> Pixel \<Rightarrow> nat" where
  "hit c t = (if px_match c t then 1 else 0)"

section \<open>Matches per row and per thread\<close>

text \<open>The matches of \<open>t\<close> in all rows, and in the first \<open>k\<close> rows among those run by thread \<open>th\<close>.\<close>

definition total_hits :: "Pixel list list \<Rightarrow> Pixel \<Rightarrow> nat" where
  "total_hits rows t = sum_list (map (\<lambda>row. row_hits row t) rows)"

definition thread_hits :: "(nat \<Rightarrow> nat) \<Rightarrow> Pixel list list \<Rightarrow> Pixel \<Rightarrow> nat \<Rightarrow> nat \<Rightarrow> nat" where
  "thread_hits row_by rows t th k =
     sum_list (map (\<lambda>l. if row_by l = th then row_hits (rows ! l) t else 0) [0..<k])"

text \<open>
  The state of process-a_tc2.c when the iteration of row \<open>r\<close> starts, and what that
  iteration adds to the array \<open>local\<close> of its thread: the contribution of row \<open>r\<close> to the
  match counters.
\<close>

definition rows_before :: "(nat \<Rightarrow> nat) \<Rightarrow> nat \<Rightarrow> TState \<Rightarrow> TState" where
  "rows_before row_by r s = for_loop 0 r (row_a_tc2 row_by) s"

definition row_contrib :: "(nat \<Rightarrow> nat) \<Rightarrow> nat \<Rightarrow> TState \<Rightarrow> nat list" where
  "row_contrib row_by r s =
     (let s0 = rows_before row_by r s;
          s1 = row_a_tc2 row_by r s0
      in map (\<lambda>i. local s1 ! row_by r ! i - local s0 ! row_by r ! i)
           [0..<length_img (search s)])"

section \<open>Inputs of the row-parallel variants\<close>

text \<open>
  A file of 2000 pixels \<open>(10,20,30)\<close>, loaded with the line size 1000 of the row-parallel
  variants, and the search list \<open>[(10,20,30)]\<close>, with the counter set to zero.
\<close>

definition rows2000 :: State where
  "rows2000 =
     \<lparr>img = \<lparr>length_img = 2000, lines = 2, linesize = 1000,
              pixels = replicate 2 (replicate 1000 \<lparr>red = 10, green = 20, blue = 30\<rparr>)\<rparr>,
      search = \<lparr>length_img = 1, lines = 1, linesize = 1,
                 pixels = [[\<lparr>red = 10, green = 20, blue = 30\<rparr>]]\<rparr>,
      counter = [0]\<rparr>"

text \<open>
  Two grids of lines of 1000 pixels that share their row 1, a thousand pixels
  \<open>(10,20,30)\<close>, and the search list \<open>[(10,20,30)]\<close>: one of two rows, one of four, with
  other rows that hold no pixel of the search list.
\<close>

definition two_rows :: State where
  "two_rows =
     \<lparr>img = \<lparr>length_img = 2000, lines = 2, linesize = 1000,
              pixels = [replicate 1000 \<lparr>red = 0, green = 0, blue = 0\<rparr>,
                        replicate 1000 \<lparr>red = 10, green = 20, blue = 30\<rparr>]\<rparr>,
      search = \<lparr>length_img = 1, lines = 1, linesize = 1,
                 pixels = [[\<lparr>red = 10, green = 20, blue = 30\<rparr>]]\<rparr>,
      counter = [0]\<rparr>"

definition four_rows :: State where
  "four_rows =
     \<lparr>img = \<lparr>length_img = 4000, lines = 4, linesize = 1000,
              pixels = [replicate 1000 \<lparr>red = 1, green = 1, blue = 1\<rparr>,
                        replicate 1000 \<lparr>red = 10, green = 20, blue = 30\<rparr>,
                        replicate 1000 \<lparr>red = 0, green = 0, blue = 0\<rparr>,
                        replicate 1000 \<lparr>red = 0, green = 0, blue = 0\<rparr>]\<rparr>,
      search = \<lparr>length_img = 1, lines = 1, linesize = 1,
                 pixels = [[\<lparr>red = 10, green = 20, blue = 30\<rparr>]]\<rparr>,
      counter = [0]\<rparr>"

section \<open>An input and a team for the phased and the tiled executor\<close>

text \<open>
  The grid \<open>[(10,20,30)]\<close> with the search list \<open>[(10,20,30), (10,20,30)]\<close>, and a team of
  two threads under a static schedule: the thread \<open>sg\<close> executes every \<open>single\<close> block, the
  iteration \<open>i\<close> of every work-shared loop goes to the thread \<open>i mod 2\<close>, and scalars that
  were not initialised hold 0.
\<close>

definition two_targets :: State where
  "two_targets =
     \<lparr>img = \<lparr>length_img = 1, lines = 1, linesize = 1,
              pixels = [[\<lparr>red = 10, green = 20, blue = 30\<rparr>]]\<rparr>,
      search = \<lparr>length_img = 2, lines = 1, linesize = 2,
                 pixels = [[\<lparr>red = 10, green = 20, blue = 30\<rparr>,
                            \<lparr>red = 10, green = 20, blue = 30\<rparr>]]\<rparr>,
      counter = [0, 0]\<rparr>"

definition team2 :: "nat \<Rightarrow> Team" where
  "team2 sg =
     \<lparr>nthreads = 2, single_by = (\<lambda>p k. sg), for_by = (\<lambda>p k i. i mod 2),
      uninit = (\<lambda>p j t. zero_px)\<rparr>"

section \<open>A run environment\<close>

text \<open>
  An input file of three pixels and a search file with the pixel \<open>(0,0,0)\<close>; every name
  can be written; memory comes from \<open>malloc\<close> holding \<open>(7,7,7)\<close> in every pixel and 5 in
  every counter; every allocation succeeds.
\<close>

definition env_demo :: Env where
  "env_demo =
     \<lparr>files = (\<lambda>f. if f = ''in.raw''
                     then Some [\<lparr>red = 1, green = 2, blue = 3\<rparr>,
                                \<lparr>red = 4, green = 5, blue = 6\<rparr>,
                                \<lparr>red = 7, green = 8, blue = 9\<rparr>]
                     else if f = ''search.raw'' then Some [\<lparr>red = 0, green = 0, blue = 0\<rparr>]
                     else None),
      writable = (\<lambda>f. True),
      heap = (\<lambda>a l p. \<lparr>red = 7, green = 7, blue = 7\<rparr>),
      rand = (\<lambda>k. 0),
      lines_alloc_ok = True,
      row_alloc_ok = (\<lambda>l. True),
      counter_alloc_ok = True,
      counter_mem = (\<lambda>i. 5)\<rparr>"

section \<open>What loading leaves in the grid\<close>

text \<open>
  The pixels of a loaded grid of \<open>nl\<close> lines of \<open>ls\<close> pixels: the pixels of the file in
  order, and after them what the allocated memory \<open>mem\<close> held.
\<close>

definition loaded_pixels ::
  "Pixel list \<Rightarrow> (nat \<Rightarrow> nat \<Rightarrow> Pixel) \<Rightarrow> nat \<Rightarrow> nat \<Rightarrow> Pixel list list" where
  "loaded_pixels file mem nl ls =
     map (\<lambda>l. map (\<lambda>p. if l * ls + p < length file then file ! (l * ls + p) else mem l p)
                 [0..<ls])
       [0..<nl]"


section \<open>Properties\<close>

subsection \<open>Counted loops\<close>

lemma for_loop_fold: "for_loop a n body s = fold body [a..<n] s"
proof (induction a n body s rule: for_loop.induct)
  case (1 i n body s)
  show ?case
  proof (cases "i < n")
    case True
    then show ?thesis
      using 1 by (subst for_loop.simps) (simp add: upt_conv_Cons)
  next
    case False
    then show ?thesis by (subst for_loop.simps) simp
  qed
qed

lemma for_loop_invariant:
  assumes "P s" and "\<And>i s. i < n \<Longrightarrow> P s \<Longrightarrow> P (body i s)"
  shows "P (for_loop a n body s)"
  using assms
proof (induction a n body s rule: for_loop.induct)
  case (1 i n body s)
  show ?case
  proof (cases "i < n")
    case True
    then show ?thesis
      using 1 by (subst for_loop.simps) simp
  next
    case False
    then show ?thesis using 1(2) by (subst for_loop.simps) simp
  qed
qed

lemma for_loop_empty [simp]: "n \<le> a \<Longrightarrow> for_loop a n body s = s"
  by (subst for_loop.simps) simp

lemma for_loop_Suc: "a \<le> n \<Longrightarrow> for_loop a (Suc n) body s = body n (for_loop a n body s)"
  by (simp add: for_loop_fold)

subsection \<open>What the steps leave unchanged\<close>

lemma shape_set_pixel [simp]: "shape (set_pixel im l p v) = shape im"
proof -
  have "map length ((pixels im)[l := (pixels im ! l)[p := v]]) = map length (pixels im)"
  proof (cases "l < length (pixels im)")
    case True
    then show ?thesis by (simp add: map_update list_update_same_conv)
  next
    case False
    then show ?thesis by (simp add: list_update_beyond)
  qed
  then show ?thesis by (simp add: shape_def set_pixel_def)
qed

lemma shape_bleed [simp]: "shape (bleed l p im) = shape im"
  by (simp add: bleed_def Let_def)

lemma shape_transform [simp]: "shape (transform l p im) = shape im"
  by (simp add: transform_def Let_def)

lemma search_body_img [simp]: "img (search_body l p i s) = img s"
  by (simp add: search_body_def)

lemma search_body_search [simp]: "search (search_body l p i s) = search s"
  by (simp add: search_body_def)

lemma search_loop_img [simp]: "img (search_loop l p s) = img s"
  unfolding search_loop_def
  by (rule for_loop_invariant [where P = "\<lambda>s'. img s' = img s"]) simp_all

lemma search_loop_search [simp]: "search (search_loop l p s) = search s"
  unfolding search_loop_def
  by (rule for_loop_invariant [where P = "\<lambda>s'. search s' = search s"]) simp_all

lemma pixel_b_search [simp]: "search (pixel_b p s) = search s"
  by (simp add: pixel_b_def Let_def)

lemma pixel_b_img: "img (pixel_b p s) = transform 0 p (img s)"
  by (simp add: pixel_b_def Let_def)

lemma pixel_b_shape [simp]: "shape (img (pixel_b p s)) = shape (img s)"
  by (simp add: pixel_b_img)

lemma process_b_frame:
  "shape (img (process_b s)) = shape (img s) \<and> search (process_b s) = search s"
  unfolding process_b_def
  by (rule for_loop_invariant
        [where P = "\<lambda>s'. shape (img s') = shape (img s) \<and> search s' = search s"]) simp_all

text \<open>
  C9. The pass of the sequential reference changes pixel values only: in the state it
  returns, the fields \<open>length\<close>, \<open>lines\<close> and \<open>linesize\<close> of the grid and the sizes of its
  allocated rows are the ones of the state it was given, and the search image is the same
  image, shape and pixels.
\<close>

theorem C9_shape_and_search_unchanged:
  "length_img (img (process_b s)) = length_img (img s)
   \<and> lines (img (process_b s)) = lines (img s)
   \<and> linesize (img (process_b s)) = linesize (img s)
   \<and> map length (pixels (img (process_b s))) = map length (pixels (img s))
   \<and> search (process_b s) = search s"
  using process_b_frame [of s] by (simp add: shape_def)

lemmas eval_defs =
  search_loop_def search_body_def px_match_def pixel_at_def set_pixel_def
  transform_def bleed_def Greyscale_def XOR_px_def c_div_def signed_divide_int_def
  pixel_b_def process_b_def av_body_def zero_px_def

lemma scenario_pre_search: "counter (search_loop 0 0 scenario) = [1]"
  by (simp add: scenario_def eval_defs for_loop.simps)

lemma scenario_pre_search_img: "img (search_loop 0 0 scenario) = img scenario"
  by (simp add: scenario_def eval_defs for_loop.simps)

lemma scenario_no_bleed: "bleed 0 0 (img scenario) = img scenario"
  by (simp add: bleed_def)

lemma scenario_grey:
  "Greyscale \<lparr>red = 10, green = 20, blue = 30\<rparr> = \<lparr>red = 20, green = 20, blue = 20\<rparr>"
  by (simp add: Greyscale_def c_div_def signed_divide_int_def)

lemma scenario_xor:
  "XOR_px \<lparr>red = 20, green = 20, blue = 20\<rparr> 13 = \<lparr>red = 25, green = 25, blue = 25\<rparr>"
  by (simp add: XOR_px_def)

lemma scenario_after_p0:
  "pixel_b 0 scenario =
     scenario\<lparr>img := (img scenario)\<lparr>pixels :=
                 [[\<lparr>red = 25, green = 25, blue = 25\<rparr>,
                   \<lparr>red = 40, green = 50, blue = 60\<rparr>,
                   \<lparr>red = 70, green = 80, blue = 90\<rparr>]]\<rparr>,
               counter := [1]\<rparr>"
  by (simp add: scenario_def eval_defs for_loop.simps)

lemma scenario_first_iteration:
  "process_b scenario = for_loop 1 3 pixel_b (pixel_b 0 scenario)"
  by (simp add: process_b_def for_loop.simps [of 0] scenario_def)

text \<open>
  C3. On the one-row grid \<open>[(10,20,30),(40,50,60),(70,80,90)]\<close> with search list
  \<open>[(10,20,30)]\<close>, the iteration \<open>p = 0\<close> of the sequential reference goes as follows: the
  first search sets the only counter to 1, the bleed leaves the image as it is, greyscale
  gives \<open>(20,20,20)\<close>, the XOR with 13 gives \<open>(25,25,25)\<close>, which is the pixel at column 0
  after the iteration, and the second search finds no match: the counter is still 1. The
  run of the whole program continues from that state with the columns 1 and 2.
\<close>

theorem C3_concrete_scenario:
  "counter (search_loop 0 0 scenario) = [1]
   \<and> bleed 0 0 (img (search_loop 0 0 scenario)) = img scenario
   \<and> Greyscale (pixel_at (img scenario) 0 0) = \<lparr>red = 20, green = 20, blue = 20\<rparr>
   \<and> XOR_px \<lparr>red = 20, green = 20, blue = 20\<rparr> 13 = \<lparr>red = 25, green = 25, blue = 25\<rparr>
   \<and> pixel_at (img (pixel_b 0 scenario)) 0 0 = \<lparr>red = 25, green = 25, blue = 25\<rparr>
   \<and> counter (pixel_b 0 scenario) = [1]
   \<and> process_b scenario = for_loop 1 3 pixel_b (pixel_b 0 scenario)"
proof -
  have g: "Greyscale (pixel_at (img scenario) 0 0) = \<lparr>red = 20, green = 20, blue = 20\<rparr>"
    using scenario_grey by (simp add: scenario_def pixel_at_def)
  have b: "bleed 0 0 (img (search_loop 0 0 scenario)) = img scenario"
    by (simp add: scenario_pre_search_img scenario_no_bleed)
  have p: "pixel_at (img (pixel_b 0 scenario)) 0 0 = \<lparr>red = 25, green = 25, blue = 25\<rparr>"
    by (simp add: scenario_after_p0 pixel_at_def)
  have c: "counter (pixel_b 0 scenario) = [1]"
    by (simp add: scenario_after_p0)
  from scenario_pre_search b g scenario_xor p c scenario_first_iteration
  show ?thesis by blast
qed

subsection \<open>The bleed and the pass over a row\<close>

lemma sint_of_nat_small: "n \<le> 10 \<Longrightarrow> sint (of_nat n :: cint) = int n"
proof -
  assume n: "n \<le> 10"
  have "signed_take_bit (LENGTH(32) - 1) (int n) = int n"
    by (rule signed_take_bit_int_eq_self) (use n in simp_all)
  then show ?thesis by (simp add: signed_of_nat)
qed

lemma c_div_trunc: "0 < n \<Longrightarrow> n \<le> 10 \<Longrightarrow> c_div a (of_nat n) = trunc_div a n"
  by (simp add: c_div_def trunc_div_def signed_divide_int_def sint_of_nat_small)

lemma c_div_3: "c_div a 3 = trunc_div a 3"
  using c_div_trunc [of 3 a] by simp

lemma av_loop:
  "a \<le> p \<Longrightarrow> for_loop a p (av_body im l) av0 =
     \<lparr>red = red av0 + sum_list (map (\<lambda>i. red (pixels im ! l ! i)) [a..<p]),
      green = green av0 + sum_list (map (\<lambda>i. green (pixels im ! l ! i)) [a..<p]),
      blue = blue av0 + sum_list (map (\<lambda>i. blue (pixels im ! l ! i)) [a..<p])\<rparr>"
proof (induction p)
  case 0
  then show ?case by simp
next
  case (Suc p)
  show ?case
  proof (cases "a = Suc p")
    case True
    then show ?thesis by simp
  next
    case False
    with Suc.prems have "a \<le> p" by simp
    then show ?thesis
      using Suc.IH by (simp add: for_loop_Suc av_body_def pixel_at_def add.assoc)
  qed
qed

lemma bleed_eq_spec:
  "bleed l p im =
     (if p = 0 then im
      else set_pixel im l p (bleed_spec (pixels im ! l) p (pixels im ! l ! p)))"
proof (cases "p = 0")
  case True
  then show ?thesis by (simp add: bleed_def)
next
  case False
  have startpix: "(if 10 < p then p - 10 else 0) = p - min 10 p" by simp
  have pixlen: "(if 10 < p then 10 else p) = min 10 p" by simp
  have n: "0 < min 10 p" "min 10 p \<le> 10" using False by simp_all
  show ?thesis
    using False n
    by (simp add: bleed_def bleed_spec_def Let_def av_loop zero_px_def pixel_at_def
        c_div_trunc c_div_3 startpix pixlen del: min_less_iff_conj)
qed


lemma row_out_Nil [simp]: "row_out [] = []"
  by (simp add: row_out_def)

lemma row_out_snoc: "row_out (xs @ [x]) = row_out xs @ [new_px (row_out xs) x]"
  by (simp add: row_out_def)

lemma length_row_out [simp]: "length (row_out xs) = length xs"
  by (induction xs rule: rev_induct) (simp_all add: row_out_snoc)

lemma take_row_out: "take k (row_out xs) = row_out (take k xs)"
proof (induction xs rule: rev_induct)
  case Nil
  then show ?case by simp
next
  case (snoc x xs)
  show ?case
  proof (cases "k \<le> length xs")
    case True
    then show ?thesis using snoc by (simp add: row_out_snoc)
  next
    case False
    then show ?thesis by (simp add: row_out_snoc)
  qed
qed

lemma bleed_spec_cong:
  assumes "\<And>i. i < p \<Longrightarrow> row ! i = row' ! i"
  shows "bleed_spec row p cur = bleed_spec row' p cur"
proof -
  have r: "map (\<lambda>i. red (row ! i)) [p - min 10 p..<p] = map (\<lambda>i. red (row' ! i)) [p - min 10 p..<p]"
    using assms by simp
  have g: "map (\<lambda>i. green (row ! i)) [p - min 10 p..<p] = map (\<lambda>i. green (row' ! i)) [p - min 10 p..<p]"
    using assms by simp
  have b: "map (\<lambda>i. blue (row ! i)) [p - min 10 p..<p] = map (\<lambda>i. blue (row' ! i)) [p - min 10 p..<p]"
    using assms by simp
  show ?thesis unfolding bleed_spec_def Let_def r g b ..
qed

lemma pixel_at_set_pixel:
  "l < length (pixels im) \<Longrightarrow> p < length (pixels im ! l) \<Longrightarrow> pixel_at (set_pixel im l p v) l p = v"
  by (simp add: pixel_at_def set_pixel_def)

lemma set_pixel_twice: "set_pixel (set_pixel im l p a) l p b = set_pixel im l p b"
proof (cases "l < length (pixels im)")
  case True
  then show ?thesis by (simp add: set_pixel_def)
next
  case False
  then show ?thesis by (simp add: set_pixel_def list_update_beyond)
qed

lemma pixels_set_pixel:
  "pixels (set_pixel im l p v) = (pixels im)[l := (pixels im ! l)[p := v]]"
  by (simp add: set_pixel_def)

lemma transform_eq:
  assumes "l < length (pixels im)" and "p < length (pixels im ! l)"
  shows "transform l p im =
     set_pixel im l p
       (XOR_px (Greyscale (if p = 0 then pixels im ! l ! p
                           else bleed_spec (pixels im ! l) p (pixels im ! l ! p))) 13)"
proof (cases "p = 0")
  case True
  then show ?thesis
    using assms
    by (simp add: transform_def Let_def bleed_eq_spec pixel_at_set_pixel set_pixel_twice)
       (simp add: pixel_at_def)
next
  case False
  then show ?thesis
    using assms
    by (simp add: transform_def Let_def bleed_eq_spec pixel_at_set_pixel set_pixel_twice
        pixels_set_pixel)
qed

text \<open>The row \<open>l\<close> after the columns below \<open>k\<close> have been transformed.\<close>

lemma transform_row_step:
  assumes l: "l < length (pixels im)"
    and row: "pixels im ! l = row_out (take k row) @ drop k row"
    and k: "k < length row"
  shows "transform l k im =
     im\<lparr>pixels := (pixels im)[l := row_out (take (Suc k) row) @ drop (Suc k) row]\<rparr>"
proof -
  let ?prev = "row_out (take k row)"
  let ?R = "pixels im ! l"
  have len: "length ?prev = k" using k by simp
  have Rk: "?R ! k = row ! k" using k len by (simp add: row nth_append)
  have klt: "k < length ?R" using k by (simp add: row)
  have prev: "\<And>i. i < k \<Longrightarrow> ?R ! i = ?prev ! i"
    using len by (simp add: row nth_append)
  have bs: "bleed_spec ?R k (row ! k) = bleed_spec ?prev k (row ! k)"
    by (rule bleed_spec_cong) (rule prev)
  have np: "(if k = 0 then ?R ! k else bleed_spec ?R k (?R ! k)) =
            (if ?prev = [] then row ! k else bleed_spec ?prev (length ?prev) (row ! k))"
  proof -
    have e: "(?prev = []) = (k = 0)" by (metis len length_0_conv)
    show ?thesis unfolding e using len bs Rk by auto
  qed
  have upd: "?R[k := v] = ?prev @ v # drop (Suc k) row" for v
    using k len by (simp add: row list_update_append Cons_nth_drop_Suc [symmetric])
  have snoc: "row_out (take (Suc k) row) = ?prev @ [new_px ?prev (row ! k)]"
    using k by (simp add: take_Suc_conv_app_nth row_out_snoc)
  show ?thesis
    using l klt
    by (simp add: transform_eq np set_pixel_def upd snoc new_px_def)
qed

lemma transform_row_loop:
  assumes l: "l < length (pixels im)" and k: "k \<le> length (pixels im ! l)"
  shows "for_loop 0 k (transform l) im =
     im\<lparr>pixels := (pixels im)[l := row_out (take k (pixels im ! l)) @ drop k (pixels im ! l)]\<rparr>"
  using k
proof (induction k)
  case 0
  then show ?case by (simp add: list_update_same_conv [THEN iffD2])
next
  case (Suc k)
  let ?row = "pixels im ! l"
  let ?im = "im\<lparr>pixels := (pixels im)[l := row_out (take k ?row) @ drop k ?row]\<rparr>"
  have IH: "for_loop 0 k (transform l) im = ?im" using Suc by simp
  have "transform l k ?im =
          ?im\<lparr>pixels := (pixels ?im)[l := row_out (take (Suc k) ?row) @ drop (Suc k) ?row]\<rparr>"
    by (rule transform_row_step) (use l Suc.prems in simp_all)
  then show ?case by (simp add: for_loop_Suc IH)
qed

subsection \<open>The bleed step in the run of the reference\<close>

lemma img_pixel_b_loop: "img (for_loop 0 k pixel_b s) = for_loop 0 k (transform 0) (img s)"
  by (induction k) (simp_all add: for_loop_Suc pixel_b_img)

lemma process_b_split:
  assumes "p < linesize (img s)"
  shows "process_b s = for_loop (Suc p) (linesize (img s)) pixel_b (pixel_b p (state_before p s))"
proof -
  have "[0..<p + (linesize (img s) - p)] = [0..<p] @ [p..<p + (linesize (img s) - p)]"
    by (rule upt_add_eq_append) simp
  then have "[0..<linesize (img s)] = [0..<p] @ p # [Suc p..<linesize (img s)]"
    using assms by (simp add: upt_conv_Cons)
  then show ?thesis
    by (simp add: process_b_def state_before_def for_loop_fold)
qed

lemma row0_before:
  assumes "pixels (img s) \<noteq> []" and "p \<le> length (pixels (img s) ! 0)"
  shows "pixels (img (state_before p s)) ! 0 =
           row_out (take p (pixels (img s) ! 0)) @ drop p (pixels (img s) ! 0)"
  using assms by (simp add: state_before_def img_pixel_b_loop transform_row_loop)

lemma row0_final:
  assumes "pixels (img s) \<noteq> []" and "length (pixels (img s) ! 0) = linesize (img s)"
  shows "pixels (img (process_b s)) ! 0 = row_out (pixels (img s) ! 0)"
  using assms by (simp add: process_b_def img_pixel_b_loop transform_row_loop)

lemma bleed_pixels_length:
  "length (pixels (bleed l p im)) = length (pixels im)"
  "length (pixels (bleed l p im) ! l) = length (pixels im ! l)"
  by (cases "l < length (pixels im)"; simp add: bleed_eq_spec set_pixel_def list_update_beyond)+

lemma transform_as_bleed:
  assumes "l < length (pixels im)" and "p < length (pixels im ! l)"
  shows "transform l p im =
     (let b = bleed l p im in set_pixel b l p (XOR_px (Greyscale (pixel_at b l p)) 13))"
proof -
  let ?b = "bleed l p im"
  have r: "l < length (pixels ?b)" "p < length (pixels ?b ! l)"
    using assms by (simp_all add: bleed_pixels_length)
  have "pixel_at (set_pixel ?b l p (Greyscale (pixel_at ?b l p))) l p = Greyscale (pixel_at ?b l p)"
    using r by (rule pixel_at_set_pixel)
  then show ?thesis
    by (simp add: transform_def Let_def set_pixel_twice)
qed

lemma state_before_img:
  assumes "pixels (img s) \<noteq> []" and "p \<le> length (pixels (img s) ! 0)"
  shows "img (state_before p s) =
     (img s)\<lparr>pixels := (pixels (img s))
        [0 := row_out (take p (pixels (img s) ! 0)) @ drop p (pixels (img s) ! 0)]\<rparr>"
  using assms by (simp add: state_before_def img_pixel_b_loop transform_row_loop)

lemma row_out_nth:
  assumes "p < length row"
  shows "row_out row ! p =
     XOR_px (Greyscale (if p = 0 then row ! p else bleed_spec (row_out row) p (row ! p))) 13"
proof -
  let ?prev = "row_out (take p row)"
  have len: "length ?prev = p" using assms by simp
  have e: "(?prev = []) = (p = 0)" by (metis len length_0_conv)
  have "row_out row ! p = take (Suc p) (row_out row) ! p" by simp
  also have "\<dots> = row_out (take (Suc p) row) ! p" by (simp only: take_row_out)
  also have "\<dots> = (?prev @ [new_px ?prev (row ! p)]) ! p"
    using assms by (simp add: take_Suc_conv_app_nth row_out_snoc)
  also have "\<dots> = new_px ?prev (row ! p)" using len by (simp add: nth_append)
  finally have a: "row_out row ! p = new_px ?prev (row ! p)" .
  have "?prev ! i = row_out row ! i" if "i < p" for i
  proof -
    have "?prev ! i = take p (row_out row) ! i" by (simp only: take_row_out)
    then show ?thesis using that by simp
  qed
  then have "bleed_spec ?prev p (row ! p) = bleed_spec (row_out row) p (row ! p)"
    by (rule bleed_spec_cong)
  then show ?thesis
    unfolding a new_px_def e using len by simp
qed

text \<open>
  C2. In the run of the sequential reference on a grid whose row 0 has \<open>linesize\<close>
  pixels, the iteration of every column \<open>p\<close> starts from the state \<open>state_before p s\<close>.
  Its bleed step, applied to the image the first search leaves, does this: at \<open>p = 0\<close> it
  leaves the image as it is; at \<open>p > 0\<close> it writes at column \<open>p\<close> the pixel \<open>bleed_spec\<close>
  computes from the row as the run leaves it (the columns below \<open>p\<close> in their transformed
  state) and the pixel the input has at column \<open>p\<close>: with \<open>n = min 10 p\<close>, each channel
  summed over the columns \<open>p - n\<close> to \<open>p - 1\<close> and divided by \<open>n\<close>, then a third of the
  difference to the current channel added to it, both divisions truncating towards
  zero. The image the iteration produces is the result of that bleed step with its pixel
  at column \<open>p\<close> turned to grey and XORed with 13; this pixel is the pixel at column \<open>p\<close>
  of the grid the run returns, which is therefore the grey and XOR of the input pixel
  at \<open>p = 0\<close> and of the bled pixel at \<open>p > 0\<close>.
\<close>

theorem C2_bleed:
  assumes "pixels (img s) \<noteq> []"
    and "length (pixels (img s) ! 0) = linesize (img s)"
    and "p < linesize (img s)"
  shows "process_b s = for_loop (Suc p) (linesize (img s)) pixel_b (pixel_b p (state_before p s))
    \<and> bleed 0 p (img (search_loop 0 p (state_before p s))) =
        (if p = 0 then img (state_before p s)
         else set_pixel (img (state_before p s)) 0 p
                (bleed_spec (pixels (img (process_b s)) ! 0) p (pixel_at (img s) 0 p)))
    \<and> pixel_at (bleed 0 p (img (search_loop 0 p (state_before p s)))) 0 p =
        (if p = 0 then pixel_at (img s) 0 p
         else bleed_spec (pixels (img (process_b s)) ! 0) p (pixel_at (img s) 0 p))
    \<and> img (pixel_b p (state_before p s)) =
        (let b = bleed 0 p (img (search_loop 0 p (state_before p s)))
         in set_pixel b 0 p (XOR_px (Greyscale (pixel_at b 0 p)) 13))
    \<and> pixel_at (img (pixel_b p (state_before p s))) 0 p = pixel_at (img (process_b s)) 0 p
    \<and> pixel_at (img (process_b s)) 0 p =
        XOR_px (Greyscale (if p = 0 then pixel_at (img s) 0 p
                           else bleed_spec (pixels (img (process_b s)) ! 0) p (pixel_at (img s) 0 p))) 13"
proof -
  let ?row = "pixels (img s) ! 0"
  let ?B = "img (state_before p s)"
  let ?R = "pixels ?B ! 0"
  let ?out = "pixels (img (process_b s)) ! 0"
  have B: "?B = (img s)\<lparr>pixels := (pixels (img s))[0 := row_out (take p ?row) @ drop p ?row]\<rparr>"
    using assms by (simp add: state_before_img)
  have R: "?R = row_out (take p ?row) @ drop p ?row"
    using assms by (simp add: row0_before)
  have len: "length (row_out (take p ?row)) = p" using assms by simp
  have rng: "0 < length (pixels ?B)" "p < length ?R"
    using assms by (simp_all add: B)
  have cur: "?R ! p = pixel_at (img s) 0 p"
    using assms len by (simp add: R nth_append pixel_at_def)
  have out: "?out = row_out ?row" using assms by (simp add: row0_final)
  have prev: "?R ! i = ?out ! i" if "i < p" for i
  proof -
    have "?R ! i = row_out (take p ?row) ! i"
      using that len by (simp add: R nth_append)
    also have "\<dots> = take p (row_out ?row) ! i" by (simp add: take_row_out)
    also have "\<dots> = row_out ?row ! i" using that by simp
    finally show ?thesis by (simp add: out)
  qed
  have bs: "bleed_spec ?R p (?R ! p) = bleed_spec ?out p (pixel_at (img s) 0 p)"
    unfolding cur by (rule bleed_spec_cong) (rule prev)
  have c1: "process_b s = for_loop (Suc p) (linesize (img s)) pixel_b (pixel_b p (state_before p s))"
    using assms(3) by (rule process_b_split)
  have c2: "bleed 0 p (img (search_loop 0 p (state_before p s))) =
        (if p = 0 then ?B else set_pixel ?B 0 p (bleed_spec ?out p (pixel_at (img s) 0 p)))"
    by (simp add: bleed_eq_spec bs)
  have c2': "bleed 0 p ?B =
        (if p = 0 then ?B else set_pixel ?B 0 p (bleed_spec ?out p (pixel_at (img s) 0 p)))"
    using c2 by simp
  have c3: "pixel_at (bleed 0 p (img (search_loop 0 p (state_before p s)))) 0 p =
        (if p = 0 then pixel_at (img s) 0 p else bleed_spec ?out p (pixel_at (img s) 0 p))"
  proof (cases "p = 0")
    case True
    then show ?thesis using cur by (simp add: bleed_eq_spec pixel_at_def)
  next
    case False
    then show ?thesis using rng by (simp add: c2' pixel_at_set_pixel)
  qed
  have c4: "img (pixel_b p (state_before p s)) =
        (let b = bleed 0 p (img (search_loop 0 p (state_before p s)))
         in set_pixel b 0 p (XOR_px (Greyscale (pixel_at b 0 p)) 13))"
    using transform_as_bleed [OF rng] by (simp add: pixel_b_img)
  have c6: "pixel_at (img (process_b s)) 0 p =
        XOR_px (Greyscale (if p = 0 then pixel_at (img s) 0 p
                           else bleed_spec ?out p (pixel_at (img s) 0 p))) 13"
    using assms row_out_nth [of p ?row] by (simp add: pixel_at_def out)
  have bl: "0 < length (pixels (bleed 0 p ?B))" "p < length (pixels (bleed 0 p ?B) ! 0)"
    using rng by (simp_all add: bleed_pixels_length)
  have c5: "pixel_at (img (pixel_b p (state_before p s))) 0 p = pixel_at (img (process_b s)) 0 p"
    unfolding c4 Let_def c6 using pixel_at_set_pixel [OF bl] c3 by simp
  from c1 c2 c3 c4 c5 c6 show ?thesis by (intro conjI)
qed


lemma scenario_bleed_p1:
  "bleed_spec (pixels (img (process_b scenario)) ! 0) 1 (pixel_at (img scenario) 0 1)
     = \<lparr>red = 35, green = 42, blue = 49\<rparr>"
  by code_simp

lemma scenario_out_p1:
  "pixel_at (img (process_b scenario)) 0 1 = \<lparr>red = 39, green = 39, blue = 39\<rparr>"
  by code_simp

theorem C2_bleed_witness:
  "pixels (img scenario) \<noteq> []
   \<and> length (pixels (img scenario) ! 0) = linesize (img scenario)
   \<and> 1 < linesize (img scenario)
   \<and> process_b scenario = for_loop 2 3 pixel_b (pixel_b 1 (state_before 1 scenario))
   \<and> bleed 0 1 (img (search_loop 0 1 (state_before 1 scenario))) =
        set_pixel (img (state_before 1 scenario)) 0 1
          (bleed_spec (pixels (img (process_b scenario)) ! 0) 1 (pixel_at (img scenario) 0 1))
   \<and> pixel_at (bleed 0 1 (img (search_loop 0 1 (state_before 1 scenario)))) 0 1 =
        bleed_spec (pixels (img (process_b scenario)) ! 0) 1 (pixel_at (img scenario) 0 1)
   \<and> img (pixel_b 1 (state_before 1 scenario)) =
        (let b = bleed 0 1 (img (search_loop 0 1 (state_before 1 scenario)))
         in set_pixel b 0 1 (XOR_px (Greyscale (pixel_at b 0 1)) 13))
   \<and> pixel_at (img (pixel_b 1 (state_before 1 scenario))) 0 1 = pixel_at (img (process_b scenario)) 0 1
   \<and> pixel_at (img (process_b scenario)) 0 1 =
        XOR_px (Greyscale (bleed_spec (pixels (img (process_b scenario)) ! 0) 1
                             (pixel_at (img scenario) 0 1))) 13
   \<and> bleed_spec (pixels (img (process_b scenario)) ! 0) 1 (pixel_at (img scenario) 0 1)
        = \<lparr>red = 35, green = 42, blue = 49\<rparr>
   \<and> pixel_at (img (process_b scenario)) 0 1 = \<lparr>red = 39, green = 39, blue = 39\<rparr>"
proof -
  have h1: "pixels (img scenario) \<noteq> []" by (simp add: scenario_def)
  have h2: "length (pixels (img scenario) ! 0) = linesize (img scenario)" by (simp add: scenario_def)
  have h3: "1 < linesize (img scenario)" by (simp add: scenario_def)
  have l: "linesize (img scenario) = 3" "Suc 1 = 2" by (simp_all add: scenario_def)
  have n: "(1::nat) \<noteq> 0" by simp
  note C = C2_bleed [OF h1 h2 h3, unfolded l if_not_P [OF n]]
  from C h1 h2 h3 scenario_bleed_p1 scenario_out_p1 show ?thesis by blast
qed

subsection \<open>The search loops count the matches\<close>

lemma add_fold:
  fixes c :: "nat list"
  shows "j \<le> length c \<Longrightarrow>
   fold (\<lambda>i c. c[i := c ! i + d i]) [0..<j] c =
     map (\<lambda>i. c ! i + (if i < j then d i else 0)) [0..<length c]"
proof (induction j)
  case 0
  then show ?case by (simp add: map_nth)
next
  case (Suc j)
  then have IH: "fold (\<lambda>i c. c[i := c ! i + d i]) [0..<j] c =
     map (\<lambda>i. c ! i + (if i < j then d i else 0)) [0..<length c]" by simp
  show ?case
    using Suc.prems
    by (auto simp: IH intro!: nth_equalityI simp: nth_list_update)
qed

lemma add_fold_full:
  fixes c :: "nat list"
  shows "fold (\<lambda>i c. c[i := c ! i + d i]) [0..<length c] c = map (\<lambda>i. c ! i + d i) [0..<length c]"
  by (simp add: add_fold)

lemma for_loop_cong_inv:
  assumes "I s" and "\<And>i s. i < n \<Longrightarrow> I s \<Longrightarrow> body i s = body' i s \<and> I (body' i s)"
  shows "for_loop a n body s = for_loop a n body' s"
  using assms
proof (induction a n body s rule: for_loop.induct)
  case (1 i n body s)
  show ?case
  proof (cases "i < n")
    case True
    have b: "body i s = body' i s" and I': "I (body' i s)" using 1(2,3) True by auto
    have "for_loop (Suc i) n body (body i s) = for_loop (Suc i) n body' (body i s)"
      using 1(1) [OF True] I' b 1(3) by simp
    then show ?thesis using True b
      by (subst for_loop.simps, subst (2) for_loop.simps) simp
  next
    case False
    then show ?thesis by simp
  qed
qed

lemma search_body_add:
  "search_body l p i s =
     s\<lparr>counter := (counter s)[i := counter s ! i + hit (pixel_at (img s) l p) (pixel_at (search s) 0 i)]\<rparr>"
  by (simp add: search_body_def hit_def)

lemma counter_loop:
  "for_loop 0 j (\<lambda>i s. s\<lparr>counter := (counter s)[i := counter s ! i + d i]\<rparr>) s =
     s\<lparr>counter := fold (\<lambda>i c. c[i := c ! i + d i]) [0..<j] (counter s)\<rparr>"
  by (induction j) (simp_all add: for_loop_Suc)

lemma search_loop_eq:
  assumes "length (counter s) = length_img (search s)"
  shows "search_loop l p s =
     s\<lparr>counter := map (\<lambda>i. counter s ! i + hit (pixel_at (img s) l p) (pixel_at (search s) 0 i))
                     [0..<length_img (search s)]\<rparr>"
proof -
  let ?d = "\<lambda>i. hit (pixel_at (img s) l p) (pixel_at (search s) 0 i)"
  have "search_loop l p s =
      for_loop 0 (length_img (search s))
        (\<lambda>i s. s\<lparr>counter := (counter s)[i := counter s ! i + ?d i]\<rparr>) s"
    unfolding search_loop_def
    by (rule for_loop_cong_inv [where I = "\<lambda>s'. img s' = img s \<and> search s' = search s"])
       (simp_all add: search_body_add)
  then show ?thesis
    using assms add_fold_full [of ?d "counter s"] by (simp add: counter_loop)
qed

subsection \<open>The pass over a row in the state\<close>

lemma bleed_tc_eq: "bleed_tc l p im = bleed l p im"
  by (simp add: bleed_tc_def bleed_def Let_def)

lemma transform_tc_eq: "transform_tc l p im = transform l p im"
  by (simp add: transform_tc_def transform_def bleed_tc_eq)

lemma pixel_a_tc3_eq:
  assumes "length (counter s) = length_img (search s)"
  shows "pixel_a_tc3 l p s =
     s\<lparr>img := transform l p (img s),
       counter := map (\<lambda>i. counter s ! i
                            + hit (pixel_at (img s) l p) (pixel_at (search s) 0 i)
                            + hit (pixel_at (transform l p (img s)) l p) (pixel_at (search s) 0 i))
                    [0..<length_img (search s)]\<rparr>"
  using assms
  by (simp add: pixel_a_tc3_def Let_def search_loop_eq transform_tc_eq)

lemma count_px_snoc: "count_px t (xs @ [x]) = count_px t xs + hit x t"
  by (simp add: count_px_def hit_def)

lemma count_px_Nil [simp]: "count_px t [] = 0"
  by (simp add: count_px_def)

lemma pixel_loop_a_tc3:
  assumes len: "length (counter s) = length_img (search s)"
    and l: "l < length (pixels (img s))"
    and k: "k \<le> length (pixels (img s) ! l)"
  shows "for_loop 0 k (pixel_a_tc3 l) s =
     s\<lparr>img := (img s)\<lparr>pixels := (pixels (img s))
               [l := row_out (take k (pixels (img s) ! l)) @ drop k (pixels (img s) ! l)]\<rparr>,
       counter := map (\<lambda>i. counter s ! i
                            + count_px (pixel_at (search s) 0 i) (take k (pixels (img s) ! l))
                            + count_px (pixel_at (search s) 0 i)
                                (row_out (take k (pixels (img s) ! l))))
                    [0..<length_img (search s)]\<rparr>"
  using k
proof (induction k)
  case 0
  have "map ((!) (counter s)) [0..<length_img (search s)] = counter s"
    using len map_nth [of "counter s"] by simp
  then show ?case by (simp add: list_update_same_conv [THEN iffD2])
next
  case (Suc k)
  let ?row = "pixels (img s) ! l"
  let ?n = "length_img (search s)"
  let ?sl = "\<lambda>i. pixel_at (search s) 0 i"
  let ?im = "(img s)\<lparr>pixels := (pixels (img s))[l := row_out (take k ?row) @ drop k ?row]\<rparr>"
  let ?c = "map (\<lambda>i. counter s ! i + count_px (?sl i) (take k ?row)
                     + count_px (?sl i) (row_out (take k ?row))) [0..<?n]"
  let ?S = "s\<lparr>img := ?im, counter := ?c\<rparr>"
  have k: "k < length ?row" using Suc.prems by simp
  have IH: "for_loop 0 k (pixel_a_tc3 l) s = ?S" using Suc by simp
  have tr: "transform l k ?im =
      (img s)\<lparr>pixels := (pixels (img s))[l := row_out (take (Suc k) ?row) @ drop (Suc k) ?row]\<rparr>"
    using transform_row_step [of l ?im k ?row] l k by simp
  have lenp: "length (row_out (take k ?row)) = k" using k by simp
  have cur: "pixel_at ?im l k = ?row ! k"
    using l k lenp by (simp add: pixel_at_def nth_append)
  have snoc: "row_out (take (Suc k) ?row) = row_out (take k ?row) @ [new_px (row_out (take k ?row)) (?row ! k)]"
    using k by (simp add: take_Suc_conv_app_nth row_out_snoc)
  have new: "pixel_at (transform l k ?im) l k = new_px (row_out (take k ?row)) (?row ! k)"
    using l lenp by (simp add: tr pixel_at_def snoc nth_append)
  have c1: "count_px t (take (Suc k) ?row) = count_px t (take k ?row) + hit (?row ! k) t" for t
    using k by (simp add: take_Suc_conv_app_nth count_px_snoc)
  have c2: "count_px t (row_out (take (Suc k) ?row)) =
        count_px t (row_out (take k ?row)) + hit (new_px (row_out (take k ?row)) (?row ! k)) t" for t
    by (simp add: snoc count_px_snoc)
  have "pixel_a_tc3 l k ?S =
     ?S\<lparr>img := transform l k ?im,
        counter := map (\<lambda>i. ?c ! i + hit (pixel_at ?im l k) (?sl i)
                             + hit (pixel_at (transform l k ?im) l k) (?sl i)) [0..<?n]\<rparr>"
    using pixel_a_tc3_eq [of ?S l k] by simp
  also have "\<dots> = s\<lparr>img := transform l k ?im,
        counter := map (\<lambda>i. counter s ! i + count_px (?sl i) (take (Suc k) ?row)
                     + count_px (?sl i) (row_out (take (Suc k) ?row))) [0..<?n]\<rparr>"
    by (simp add: cur new c1 c2 del: length_row_out)
  finally show ?case
    by (simp add: for_loop_Suc IH tr)
qed

subsection \<open>The rows of process-a_tc3.c\<close>

lemma pixel_a_tc3_search [simp]: "search (pixel_a_tc3 l p s) = search s"
  by (simp add: pixel_a_tc3_def Let_def)

lemma pixel_a_tc3_len [simp]: "length (counter (search_loop l p s)) = length (counter s)"
  unfolding search_loop_def
  by (rule for_loop_invariant [where P = "\<lambda>s'. length (counter s') = length (counter s)"])
     (simp_all add: search_body_def)

lemma row_a_tc3_eq:
  assumes "length (counter s) = length_img (search s)"
    and "l < length (pixels (img s))"
    and "length (pixels (img s) ! l) = linesize (img s)"
  shows "row_a_tc3 l s =
     s\<lparr>img := (img s)\<lparr>pixels := (pixels (img s))[l := row_out (pixels (img s) ! l)]\<rparr>,
       counter := map (\<lambda>i. counter s ! i + row_hits (pixels (img s) ! l) (pixel_at (search s) 0 i))
                    [0..<length_img (search s)]\<rparr>"
  using assms pixel_loop_a_tc3 [of s l "linesize (img s)"]
  by (simp add: row_a_tc3_def row_hits_def add.assoc)

lemma rows_loop_a_tc3:
  assumes len: "length (counter s) = length_img (search s)"
    and wf: "wf_image (img s)"
    and k: "k \<le> lines (img s)"
  shows "for_loop 0 k row_a_tc3 s =
     s\<lparr>img := (img s)\<lparr>pixels := map row_out (take k (pixels (img s))) @ drop k (pixels (img s))\<rparr>,
       counter := map (\<lambda>i. counter s ! i + total_hits (take k (pixels (img s))) (pixel_at (search s) 0 i))
                    [0..<length_img (search s)]\<rparr>"
  using k
proof (induction k)
  case 0
  have "map ((!) (counter s)) [0..<length_img (search s)] = counter s"
    using len map_nth [of "counter s"] by simp
  then show ?case by (simp add: total_hits_def)
next
  case (Suc k)
  let ?rows = "pixels (img s)"
  let ?n = "length_img (search s)"
  let ?S = "s\<lparr>img := (img s)\<lparr>pixels := map row_out (take k ?rows) @ drop k ?rows\<rparr>,
       counter := map (\<lambda>i. counter s ! i + total_hits (take k ?rows) (pixel_at (search s) 0 i)) [0..<?n]\<rparr>"
  have k: "k < length ?rows" using Suc.prems wf by (simp add: wf_image_def)
  have IH: "for_loop 0 k row_a_tc3 s = ?S" using Suc by simp
  have rowk: "pixels (img ?S) ! k = ?rows ! k"
    using k by (simp add: nth_append)
  have lenk: "length (?rows ! k) = linesize (img s)"
    using wf k by (simp add: wf_image_def)
  have upd: "(map row_out (take k ?rows) @ drop k ?rows)[k := row_out (?rows ! k)] =
        map row_out (take (Suc k) ?rows) @ drop (Suc k) ?rows"
    using k by (simp add: list_update_append take_Suc_conv_app_nth Cons_nth_drop_Suc [symmetric])
  have tot: "total_hits (take (Suc k) ?rows) t = total_hits (take k ?rows) t + row_hits (?rows ! k) t" for t
    using k by (simp add: total_hits_def take_Suc_conv_app_nth)
  have "row_a_tc3 k ?S =
     ?S\<lparr>img := (img ?S)\<lparr>pixels := (pixels (img ?S))[k := row_out (pixels (img ?S) ! k)]\<rparr>,
        counter := map (\<lambda>i. counter ?S ! i + row_hits (pixels (img ?S) ! k) (pixel_at (search ?S) 0 i))
                    [0..<length_img (search ?S)]\<rparr>"
    by (rule row_a_tc3_eq) (use k lenk in \<open>simp_all add: nth_append\<close>)
  then have "row_a_tc3 k ?S =
     s\<lparr>img := (img s)\<lparr>pixels := map row_out (take (Suc k) ?rows) @ drop (Suc k) ?rows\<rparr>,
       counter := map (\<lambda>i. counter s ! i + total_hits (take (Suc k) ?rows) (pixel_at (search s) 0 i)) [0..<?n]\<rparr>"
    using k by (simp add: rowk upd tot nth_append add.assoc)
  then show ?case by (simp add: for_loop_Suc IH)
qed

lemma process_a_tc3_rows: "process_a_tc3 s = for_loop 0 (lines (img s)) row_a_tc3 s"
  unfolding process_a_tc3_def
  by (rule for_loop_cong_inv [where I = "\<lambda>s'. True"]) (simp_all add: row_a_tc3_def)

lemma process_a_tc3_eq:
  assumes "length (counter s) = length_img (search s)" and "wf_image (img s)"
  shows "process_a_tc3 s =
     s\<lparr>img := (img s)\<lparr>pixels := map row_out (pixels (img s))\<rparr>,
       counter := map (\<lambda>i. counter s ! i + total_hits (pixels (img s)) (pixel_at (search s) 0 i))
                    [0..<length_img (search s)]\<rparr>"
  using assms rows_loop_a_tc3 [of s "lines (img s)"]
  by (simp add: process_a_tc3_rows wf_image_def)

subsection \<open>The rows of process-a_tc2.c\<close>

lemma for_loop_search_body_img [simp]: "img (for_loop 0 j (search_body l p) s) = img s"
  by (rule for_loop_invariant [where P = "\<lambda>s'. img s' = img s"]) simp_all

lemma for_loop_search_body_search [simp]: "search (for_loop 0 j (search_body l p) s) = search s"
  by (rule for_loop_invariant [where P = "\<lambda>s'. search s' = search s"]) simp_all

lemma proj_simps [simp]:
  "img (proj t s) = img s" "search (proj t s) = search s" "counter (proj t s) = local s ! t"
  by (simp_all add: proj_def)

lemma search_local_loop:
  assumes t: "t < length (local s)"
  shows "for_loop 0 j
           (\<lambda>i s. if px_match (pixel_at (img s) l p) (pixel_at (search s) 0 i)
                   then local_incr t i s else s) s =
         s\<lparr>local := (local s)[t := counter (for_loop 0 j (search_body l p) (proj t s))]\<rparr>"
proof (induction j)
  case 0
  then show ?case by simp
next
  case (Suc j)
  define X where "X = for_loop 0 j (search_body l p) (proj t s)"
  have X: "img X = img s" "search X = search s" by (simp_all add: X_def)
  have sb: "counter (search_body l p j X) =
      (if px_match (pixel_at (img s) l p) (pixel_at (search s) 0 j)
       then (counter X)[j := counter X ! j + 1] else counter X)"
    by (simp add: search_body_def X)
  have IH: "for_loop 0 j
           (\<lambda>i s. if px_match (pixel_at (img s) l p) (pixel_at (search s) 0 i)
                   then local_incr t i s else s) s = s\<lparr>local := (local s)[t := counter X]\<rparr>"
    using Suc by (simp add: X_def)
  show ?case
    using t by (simp add: for_loop_Suc IH X_def [symmetric] sb local_incr_def)
qed

lemma search_local_proj:
  assumes "t < length (local s)"
  shows "search_local t l p s = s\<lparr>local := (local s)[t := counter (search_loop l p (proj t s))]\<rparr>"
  using search_local_loop [OF assms] by (simp add: search_local_def search_loop_def proj_def)

lemma pixel_a_tc2_proj:
  assumes t: "t < length (local s)"
  shows "pixel_a_tc2 t l p s =
     s\<lparr>img := img (pixel_a_tc3 l p (proj t s)),
       local := (local s)[t := counter (pixel_a_tc3 l p (proj t s))]\<rparr>"
proof -
  let ?s1 = "search_loop l p (proj t s)"
  let ?im = "transform_tc l p (img s)"
  have p2: "proj t (s\<lparr>local := (local s)[t := counter ?s1], img := ?im\<rparr>) = ?s1\<lparr>img := ?im\<rparr>"
    using t by (simp add: proj_def)
  have i1: "img ?s1 = img s" by (simp add: proj_def)
  show ?thesis
    using t
    by (simp add: pixel_a_tc2_def pixel_a_tc3_def Let_def search_local_proj p2 i1)
qed

lemma pixel_loop_a_tc3_search [simp]: "search (for_loop 0 k (pixel_a_tc3 l) s) = search s"
  by (rule for_loop_invariant [where P = "\<lambda>s'. search s' = search s"]) simp_all

lemma pixel_loop_a_tc2_proj:
  assumes t: "t < length (local s)"
  shows "for_loop 0 k (pixel_a_tc2 t l) s =
     s\<lparr>img := img (for_loop 0 k (pixel_a_tc3 l) (proj t s)),
       local := (local s)[t := counter (for_loop 0 k (pixel_a_tc3 l) (proj t s))]\<rparr>"
proof (induction k)
  case 0
  then show ?case by (simp add: proj_def)
next
  case (Suc k)
  let ?X = "for_loop 0 k (pixel_a_tc3 l) (proj t s)"
  let ?S = "s\<lparr>img := img ?X, local := (local s)[t := counter ?X]\<rparr>"
  have sx: "search ?X = search s" by (simp add: proj_def)
  have pr: "proj t ?S = ?X" using t sx by (simp add: proj_def)
  have "pixel_a_tc2 t l k ?S =
     ?S\<lparr>img := img (pixel_a_tc3 l k (proj t ?S)),
        local := (local ?S)[t := counter (pixel_a_tc3 l k (proj t ?S))]\<rparr>"
    by (rule pixel_a_tc2_proj) (use t in simp)
  then show ?case by (simp add: for_loop_Suc Suc pr)
qed

lemma row_a_tc2_eq:
  assumes t: "row_by l < length (local s)"
    and len: "length (local s ! row_by l) = length_img (search s)"
    and l: "l < length (pixels (img s))"
    and row: "length (pixels (img s) ! l) = linesize (img s)"
  shows "row_a_tc2 row_by l s =
     s\<lparr>img := (img s)\<lparr>pixels := (pixels (img s))[l := row_out (pixels (img s) ! l)]\<rparr>,
       local := (local s)[row_by l :=
                  map (\<lambda>i. local s ! row_by l ! i + row_hits (pixels (img s) ! l) (pixel_at (search s) 0 i))
                    [0..<length_img (search s)]]\<rparr>"
proof -
  have "row_a_tc3 l (proj (row_by l) s) =
     (proj (row_by l) s)\<lparr>img := (img (proj (row_by l) s))\<lparr>pixels :=
          (pixels (img (proj (row_by l) s)))[l := row_out (pixels (img (proj (row_by l) s)) ! l)]\<rparr>,
       counter := map (\<lambda>i. counter (proj (row_by l) s) ! i
            + row_hits (pixels (img (proj (row_by l) s)) ! l) (pixel_at (search (proj (row_by l) s)) 0 i))
                    [0..<length_img (search (proj (row_by l) s))]\<rparr>"
    by (rule row_a_tc3_eq) (use len l row in \<open>simp_all add: proj_def\<close>)
  then show ?thesis
    using pixel_loop_a_tc2_proj [OF t, of "linesize (img s)" l]
    by (simp add: row_a_tc2_def row_a_tc3_def proj_def)
qed

lemma thread_hits_Suc:
  "thread_hits row_by rows t th (Suc k) =
     thread_hits row_by rows t th k + (if row_by k = th then row_hits (rows ! k) t else 0)"
  by (simp add: thread_hits_def)

lemma thread_hits_0 [simp]: "thread_hits row_by rows t th 0 = 0"
  by (simp add: thread_hits_def)

lemma rows_loop_a_tc2:
  assumes wf: "wf_image (img s)"
    and rb: "\<And>l. l < lines (img s) \<Longrightarrow> row_by l < length (local s)"
    and len: "\<And>t. t < length (local s) \<Longrightarrow> length (local s ! t) = length_img (search s)"
    and k: "k \<le> lines (img s)"
  shows "for_loop 0 k (row_a_tc2 row_by) s =
     s\<lparr>img := (img s)\<lparr>pixels := map row_out (take k (pixels (img s))) @ drop k (pixels (img s))\<rparr>,
       local := map (\<lambda>t. map (\<lambda>i. local s ! t ! i
                                    + thread_hits row_by (pixels (img s)) (pixel_at (search s) 0 i) t k)
                            [0..<length_img (search s)])
                  [0..<length (local s)]\<rparr>"
  using k
proof (induction k)
  case 0
  have "map (\<lambda>t. map ((!) (local s ! t)) [0..<length_img (search s)]) [0..<length (local s)] = local s"
    using len by (auto intro!: nth_equalityI)
  then show ?case by simp
next
  case (Suc k)
  let ?rows = "pixels (img s)"
  let ?n = "length_img (search s)"
  let ?T = "length (local s)"
  let ?sl = "\<lambda>i. pixel_at (search s) 0 i"
  let ?loc = "\<lambda>k. map (\<lambda>t. map (\<lambda>i. local s ! t ! i + thread_hits row_by ?rows (?sl i) t k) [0..<?n]) [0..<?T]"
  let ?S = "s\<lparr>img := (img s)\<lparr>pixels := map row_out (take k ?rows) @ drop k ?rows\<rparr>, local := ?loc k\<rparr>"
  have k: "k < length ?rows" "k < lines (img s)" using Suc.prems wf by (simp_all add: wf_image_def)
  have t0: "row_by k < ?T" using rb k by simp
  have IH: "for_loop 0 k (row_a_tc2 row_by) s = ?S" using Suc by simp
  have lenk: "length (?rows ! k) = linesize (img s)"
    using wf k by (simp add: wf_image_def)
  have upd: "(map row_out (take k ?rows) @ drop k ?rows)[k := row_out (?rows ! k)] =
        map row_out (take (Suc k) ?rows) @ drop (Suc k) ?rows"
    using k by (simp add: list_update_append take_Suc_conv_app_nth Cons_nth_drop_Suc [symmetric])
  have loc: "(?loc k)[row_by k := map (\<lambda>i. ?loc k ! row_by k ! i + row_hits (?rows ! k) (?sl i)) [0..<?n]]
        = ?loc (Suc k)"
    using t0 by (auto intro!: nth_equalityI simp: nth_list_update thread_hits_Suc)
  have "row_a_tc2 row_by k ?S =
     ?S\<lparr>img := (img ?S)\<lparr>pixels := (pixels (img ?S))[k := row_out (pixels (img ?S) ! k)]\<rparr>,
       local := (local ?S)[row_by k :=
                  map (\<lambda>i. local ?S ! row_by k ! i + row_hits (pixels (img ?S) ! k) (pixel_at (search ?S) 0 i))
                    [0..<length_img (search ?S)]]\<rparr>"
    by (rule row_a_tc2_eq) (use k t0 lenk in \<open>simp_all add: nth_append\<close>)
  then have "row_a_tc2 row_by k ?S =
     s\<lparr>img := (img s)\<lparr>pixels := map row_out (take (Suc k) ?rows) @ drop (Suc k) ?rows\<rparr>,
       local := ?loc (Suc k)\<rparr>"
    using k loc by (simp add: upd nth_append)
  then show ?case by (simp add: for_loop_Suc IH)
qed

lemma calloc_local_simps [simp]:
  "img (calloc_local n s) = img s" "search (calloc_local n s) = search s"
  "counter (calloc_local n s) = counter s"
  "local (calloc_local n s) = replicate n (replicate (length_img (search s)) 0)"
  by (simp_all add: calloc_local_def)

lemma merge_for_eq:
  assumes "length (counter s) = length_img (search s)"
  shows "merge_for merge_by s =
     s\<lparr>counter := map (\<lambda>i. counter s ! i + local s ! (merge_by i) ! i) [0..<length_img (search s)]\<rparr>"
proof -
  let ?d = "\<lambda>i. local s ! (merge_by i) ! i"
  have "merge_for merge_by s =
      for_loop 0 (length_img (search s))
        (\<lambda>i s. s\<lparr>counter := (counter s)[i := counter s ! i + ?d i]\<rparr>) s"
    unfolding merge_for_def
    by (rule for_loop_cong_inv [where I = "\<lambda>s'. local s' = local s"]) simp_all
  then show ?thesis
    using assms add_fold_full [of ?d "counter s"] by (simp add: counter_loop)
qed

lemma rows_a_tc2_eq:
  assumes wf: "wf_image (img s)"
    and rb: "\<And>l. l < lines (img s) \<Longrightarrow> row_by l < n"
  shows "rows_a_tc2 row_by (calloc_local n s) =
     (calloc_local n s)\<lparr>img := (img s)\<lparr>pixels := map row_out (pixels (img s))\<rparr>,
       local := map (\<lambda>t. map (\<lambda>i. thread_hits row_by (pixels (img s)) (pixel_at (search s) 0 i) t (lines (img s)))
                            [0..<length_img (search s)])
                  [0..<n]\<rparr>"
proof -
  have "for_loop 0 (lines (img s)) (row_a_tc2 row_by) (calloc_local n s) =
     (calloc_local n s)\<lparr>img := (img (calloc_local n s))\<lparr>pixels :=
          map row_out (take (lines (img s)) (pixels (img (calloc_local n s))))
          @ drop (lines (img s)) (pixels (img (calloc_local n s)))\<rparr>,
       local := map (\<lambda>t. map (\<lambda>i. local (calloc_local n s) ! t ! i
            + thread_hits row_by (pixels (img (calloc_local n s))) (pixel_at (search (calloc_local n s)) 0 i) t (lines (img s)))
                            [0..<length_img (search (calloc_local n s))])
                  [0..<length (local (calloc_local n s))]\<rparr>"
    by (rule rows_loop_a_tc2) (use wf rb in simp_all)
  then show ?thesis
    using wf by (simp add: rows_a_tc2_def wf_image_def cong: map_cong)
qed

lemma process_a_tc2_counter:
  assumes wf: "wf_image (img s)"
    and rb: "\<And>l. l < lines (img s) \<Longrightarrow> row_by l < n"
    and len: "length (counter s) = length_img (search s)"
    and mb: "\<And>i. i < length_img (search s) \<Longrightarrow> merge_by i < n"
  shows "counter (process_a_tc2 n row_by merge_by s) =
     map (\<lambda>i. counter s ! i
               + thread_hits row_by (pixels (img s)) (pixel_at (search s) 0 i) (merge_by i) (lines (img s)))
       [0..<length_img (search s)]"
  using len mb
  by (simp add: process_a_tc2_def rows_a_tc2_eq [OF wf rb] merge_for_eq)

lemma process_a_tc3_counter:
  assumes "wf_image (img s)" and "length (counter s) = length_img (search s)"
  shows "counter (process_a_tc3 s) =
     map (\<lambda>i. counter s ! i + total_hits (pixels (img s)) (pixel_at (search s) 0 i))
       [0..<length_img (search s)]"
  using assms by (simp add: process_a_tc3_eq)

text \<open>The arrays of the threads together hold every match: their sum is the total.\<close>

lemma thread_hits_sum:
  assumes "\<And>l. l < k \<Longrightarrow> row_by l < n" and "k \<le> length rows"
  shows "sum_list (map (\<lambda>th. thread_hits row_by rows t th k) [0..<n]) = total_hits (take k rows) t"
  using assms
proof (induction k)
  case 0
  then show ?case by (simp add: total_hits_def)
next
  case (Suc k)
  have k: "k < length rows" and rb: "row_by k < n" using Suc.prems by simp_all
  have "sum_list (map (\<lambda>th. if row_by k = th then row_hits (rows ! k) t else 0) [0..<n])
        = (\<Sum>th\<in>{0..<n}. if row_by k = th then row_hits (rows ! k) t else 0)"
    by (simp add: interv_sum_list_conv_sum_set_nat)
  also have "\<dots> = row_hits (rows ! k) t" using rb by simp
  finally have one: "sum_list (map (\<lambda>th. if row_by k = th then row_hits (rows ! k) t else 0) [0..<n])
        = row_hits (rows ! k) t" .
  have "sum_list (map (\<lambda>th. thread_hits row_by rows t th (Suc k)) [0..<n]) =
        sum_list (map (\<lambda>th. thread_hits row_by rows t th k) [0..<n])
        + sum_list (map (\<lambda>th. if row_by k = th then row_hits (rows ! k) t else 0) [0..<n])"
    by (simp add: thread_hits_Suc sum_list_addf)
  then show ?case
    using Suc k by (simp add: one total_hits_def take_Suc_conv_app_nth)
qed

subsection \<open>The merge of process-a_tc2.c, and the independence of the rows\<close>

lemma wf_rows2000: "wf_image (img rows2000)"
  by (simp add: wf_image_def rows2000_def)

lemma row_hits_replicate:
  "n \<le> row_hits (replicate n t) t"
  by (simp add: row_hits_def count_px_def px_match_def)

lemma total_hits_rows2000:
  "total_hits (pixels (img rows2000)) t = 2 * row_hits (replicate 1000 \<lparr>red = 10, green = 20, blue = 30\<rparr>) t"
  by (simp add: rows2000_def total_hits_def numeral_2_eq_2)

lemma thread_hits_rows2000:
  "th < 2 \<Longrightarrow> thread_hits (\<lambda>l. l) (pixels (img rows2000)) t th 2
      = row_hits (replicate 1000 \<lparr>red = 10, green = 20, blue = 30\<rparr>) t"
  by (auto simp: rows2000_def thread_hits_def numeral_2_eq_2)

text \<open>
  C4 (the two merges do not agree). Input: 2000 pixels \<open>(10,20,30)\<close> in two rows of 1000,
  search list \<open>[(10,20,30)]\<close>, two threads, row 0 run by thread 0 and row 1 by thread 1.
  With \<open>h\<close> the number of matches in one row, at least 1000, process-a_tc3.c counts \<open>2 * h\<close>
  and process-a_tc2.c counts \<open>h\<close>, whichever of the two threads is given the iteration 0
  of the merge loop: the array \<open>local\<close> of the other thread is never added.
\<close>

theorem C4_merge_loses_counts:
  "counter (process_a_tc3 rows2000)
     = [2 * row_hits (replicate 1000 \<lparr>red = 10, green = 20, blue = 30\<rparr>) \<lparr>red = 10, green = 20, blue = 30\<rparr>]
   \<and> counter (process_a_tc2 2 (\<lambda>l. l) (\<lambda>i. 0) rows2000)
     = [row_hits (replicate 1000 \<lparr>red = 10, green = 20, blue = 30\<rparr>) \<lparr>red = 10, green = 20, blue = 30\<rparr>]
   \<and> counter (process_a_tc2 2 (\<lambda>l. l) (\<lambda>i. 1) rows2000)
     = [row_hits (replicate 1000 \<lparr>red = 10, green = 20, blue = 30\<rparr>) \<lparr>red = 10, green = 20, blue = 30\<rparr>]
   \<and> 1000 \<le> row_hits (replicate 1000 \<lparr>red = 10, green = 20, blue = 30\<rparr>) \<lparr>red = 10, green = 20, blue = 30\<rparr>"
proof -
  have s: "length_img (search rows2000) = 1" "counter rows2000 = [0]" "lines (img rows2000) = 2"
    "pixel_at (search rows2000) 0 0 = \<lparr>red = 10, green = 20, blue = 30\<rparr>"
    by (simp_all add: rows2000_def pixel_at_def)
  have a: "counter (process_a_tc3 rows2000)
     = [2 * row_hits (replicate 1000 \<lparr>red = 10, green = 20, blue = 30\<rparr>) \<lparr>red = 10, green = 20, blue = 30\<rparr>]"
    using process_a_tc3_counter [OF wf_rows2000] by (simp add: s total_hits_rows2000)
  have b: "counter (process_a_tc2 2 (\<lambda>l. l) (\<lambda>i. th) rows2000)
     = [row_hits (replicate 1000 \<lparr>red = 10, green = 20, blue = 30\<rparr>) \<lparr>red = 10, green = 20, blue = 30\<rparr>]"
    if "th < 2" for th
    using process_a_tc2_counter [of rows2000 "\<lambda>l. l" 2 "\<lambda>i. th"] wf_rows2000 that
    by (simp add: s thread_hits_rows2000)
  show ?thesis
    using a b [of 0] b [of 1] row_hits_replicate [of 1000 "\<lparr>red = 10, green = 20, blue = 30\<rparr>"]
    by simp
qed

lemma row_contrib_eq:
  assumes wf: "wf_image (img st)"
    and rb: "\<And>l. l < lines (img st) \<Longrightarrow> row_by l < n"
    and r: "r < lines (img st)"
  shows "row_contrib row_by r (calloc_local n st) =
     map (\<lambda>i. row_hits (pixels (img st) ! r) (pixel_at (search st) 0 i)) [0..<length_img (search st)]"
proof -
  let ?S = "calloc_local n st"
  let ?rows = "pixels (img st)"
  let ?m = "length_img (search st)"
  let ?s0 = "rows_before row_by r ?S"
  have rl: "r < length ?rows" using r wf by (simp add: wf_image_def)
  have t: "row_by r < n" using rb r by simp
  have s0: "?s0 =
     ?S\<lparr>img := (img ?S)\<lparr>pixels := map row_out (take r (pixels (img ?S))) @ drop r (pixels (img ?S))\<rparr>,
       local := map (\<lambda>t. map (\<lambda>i. local ?S ! t ! i
            + thread_hits row_by (pixels (img ?S)) (pixel_at (search ?S) 0 i) t r)
                            [0..<length_img (search ?S)])
                  [0..<length (local ?S)]\<rparr>"
    unfolding rows_before_def
    by (rule rows_loop_a_tc2) (use wf rb r in simp_all)
  have rowr: "pixels (img ?s0) ! r = ?rows ! r"
    using rl by (simp add: s0 nth_append)
  have lenr: "length (?rows ! r) = linesize (img st)"
    using wf rl by (simp add: wf_image_def)
  have "row_a_tc2 row_by r ?s0 =
     ?s0\<lparr>img := (img ?s0)\<lparr>pixels := (pixels (img ?s0))[r := row_out (pixels (img ?s0) ! r)]\<rparr>,
       local := (local ?s0)[row_by r :=
                  map (\<lambda>i. local ?s0 ! row_by r ! i + row_hits (pixels (img ?s0) ! r) (pixel_at (search ?s0) 0 i))
                    [0..<length_img (search ?s0)]]\<rparr>"
    by (rule row_a_tc2_eq) (use t rl lenr in \<open>simp_all add: s0 nth_append\<close>)
  then have "local (row_a_tc2 row_by r ?s0) ! row_by r =
       map (\<lambda>i. local ?s0 ! row_by r ! i + row_hits (?rows ! r) (pixel_at (search st) 0 i)) [0..<?m]"
    using t by (simp add: rowr) (simp add: s0)
  then show ?thesis
    by (simp add: row_contrib_def Let_def)
qed

lemma rows_a_tc2_row:
  assumes wf: "wf_image (img st)"
    and rb: "\<And>l. l < lines (img st) \<Longrightarrow> row_by l < n"
    and r: "r < lines (img st)"
  shows "pixels (img (rows_a_tc2 row_by (calloc_local n st))) ! r = row_out (pixels (img st) ! r)"
  using r wf by (simp add: rows_a_tc2_eq [OF wf rb] wf_image_def)

text \<open>
  Two runs of the row loop of process-a_tc2.c, on grids that have the same row \<open>r\<close>
  and the same search list, whatever their other rows, their numbers of rows, their
  numbers of threads and the assignment of rows to threads: the row \<open>r\<close> of the result is
  the same, and the iteration of row \<open>r\<close> adds the same numbers to the array \<open>local\<close> of its
  thread.
\<close>

lemma rows_loop_row_independence:
  assumes "wf_image (img st)" and "wf_image (img st')"
    and "search st = search st'"
    and "r < lines (img st)" and "r < lines (img st')"
    and "pixels (img st) ! r = pixels (img st') ! r"
    and "\<forall>l < lines (img st). row_by l < n"
    and "\<forall>l < lines (img st'). row_by' l < n'"
  shows "pixels (img (rows_a_tc2 row_by (calloc_local n st))) ! r
           = pixels (img (rows_a_tc2 row_by' (calloc_local n' st'))) ! r
       \<and> row_contrib row_by r (calloc_local n st) = row_contrib row_by' r (calloc_local n' st')"
proof -
  have a: "pixels (img (rows_a_tc2 row_by (calloc_local n st))) ! r = row_out (pixels (img st) ! r)"
    by (rule rows_a_tc2_row) (use assms in simp_all)
  have a': "pixels (img (rows_a_tc2 row_by' (calloc_local n' st'))) ! r = row_out (pixels (img st') ! r)"
    by (rule rows_a_tc2_row) (use assms in simp_all)
  have b: "row_contrib row_by r (calloc_local n st) =
     map (\<lambda>i. row_hits (pixels (img st) ! r) (pixel_at (search st) 0 i)) [0..<length_img (search st)]"
    by (rule row_contrib_eq) (use assms in simp_all)
  have b': "row_contrib row_by' r (calloc_local n' st') =
     map (\<lambda>i. row_hits (pixels (img st') ! r) (pixel_at (search st') 0 i)) [0..<length_img (search st')]"
    by (rule row_contrib_eq) (use assms in simp_all)
  show ?thesis
    using assms(3,6) by (simp add: a a' b b')
qed

text \<open>
  A transformed pixel has three equal channels, so it matches no search pixel whose red
  and green differ.
\<close>

lemma row_out_grey: "c \<in> set (row_out row) \<Longrightarrow> red c = green c"
proof (induction row rule: rev_induct)
  case Nil
  then show ?case by simp
next
  case (snoc x xs)
  then show ?case
    by (auto simp: row_out_snoc new_px_def XOR_px_def Greyscale_def Let_def)
qed

lemma count_px_row_out:
  assumes "red t \<noteq> green t"
  shows "count_px t (row_out row) = 0"
proof -
  have "\<not> px_match c t" if "c \<in> set (row_out row)" for c
    using row_out_grey [OF that] assms by (auto simp: px_match_def)
  then show ?thesis by (simp add: count_px_def)
qed

lemma row_hits_replicate_self:
  assumes "red t \<noteq> green t"
  shows "row_hits (replicate n t) t = n"
  using count_px_row_out [OF assms] by (simp add: row_hits_def count_px_def px_match_def)

lemma row_hits_replicate_other:
  assumes "red t \<noteq> green t" and "\<not> px_match z t"
  shows "row_hits (replicate n z) t = 0"
  using count_px_row_out [OF assms(1)] assms(2) by (simp add: row_hits_def count_px_def)

lemma two_rows_facts:
  "wf_image (img two_rows)" "lines (img two_rows) = 2" "length_img (search two_rows) = 1"
  "counter two_rows = [0]"
  "pixel_at (search two_rows) 0 0 = \<lparr>red = 10, green = 20, blue = 30\<rparr>"
  "pixels (img two_rows) ! 0 = replicate 1000 \<lparr>red = 0, green = 0, blue = 0\<rparr>"
  "pixels (img two_rows) ! Suc 0 = replicate 1000 \<lparr>red = 10, green = 20, blue = 30\<rparr>"
  by (simp_all add: two_rows_def wf_image_def pixel_at_def)

lemma four_rows_facts:
  "wf_image (img four_rows)" "lines (img four_rows) = 4" "length_img (search four_rows) = 1"
  "counter four_rows = [0]"
  "pixel_at (search four_rows) 0 0 = \<lparr>red = 10, green = 20, blue = 30\<rparr>"
  "pixels (img four_rows) ! 0 = replicate 1000 \<lparr>red = 1, green = 1, blue = 1\<rparr>"
  "pixels (img four_rows) ! Suc 0 = replicate 1000 \<lparr>red = 10, green = 20, blue = 30\<rparr>"
  "pixels (img four_rows) ! 2 = replicate 1000 \<lparr>red = 0, green = 0, blue = 0\<rparr>"
  "pixels (img four_rows) ! 3 = replicate 1000 \<lparr>red = 0, green = 0, blue = 0\<rparr>"
  by (simp_all add: four_rows_def wf_image_def pixel_at_def)

lemma hits_values:
  "row_hits (replicate 1000 \<lparr>red = 10, green = 20, blue = 30\<rparr>) \<lparr>red = 10, green = 20, blue = 30\<rparr> = 1000"
  "row_hits (replicate 1000 \<lparr>red = 0, green = 0, blue = 0\<rparr>) \<lparr>red = 10, green = 20, blue = 30\<rparr> = 0"
  "row_hits (replicate 1000 \<lparr>red = 1, green = 1, blue = 1\<rparr>) \<lparr>red = 10, green = 20, blue = 30\<rparr> = 0"
  by (simp_all add: row_hits_replicate_self row_hits_replicate_other px_match_def)

lemma upt_4: "[0..<4] = [0, 1, 2, 3]" "[0..<2] = [0, 1]"
  by (simp_all add: upt_rec)

lemma two_rows_pixels:
  "pixels (img two_rows) = [replicate 1000 \<lparr>red = 0, green = 0, blue = 0\<rparr>,
                            replicate 1000 \<lparr>red = 10, green = 20, blue = 30\<rparr>]"
  by (simp add: two_rows_def)

lemma four_rows_pixels:
  "pixels (img four_rows) = [replicate 1000 \<lparr>red = 1, green = 1, blue = 1\<rparr>,
                             replicate 1000 \<lparr>red = 10, green = 20, blue = 30\<rparr>,
                             replicate 1000 \<lparr>red = 0, green = 0, blue = 0\<rparr>,
                             replicate 1000 \<lparr>red = 0, green = 0, blue = 0\<rparr>]"
  by (simp add: four_rows_def)

lemma two_rows_tc3: "counter (process_a_tc3 two_rows) = [1000]"
proof -
  have "counter (process_a_tc3 two_rows) =
     map (\<lambda>i. counter two_rows ! i + total_hits (pixels (img two_rows)) (pixel_at (search two_rows) 0 i))
       [0..<length_img (search two_rows)]"
    by (rule process_a_tc3_counter) (simp_all add: two_rows_facts)
  then show ?thesis
    by (simp add: two_rows_facts two_rows_pixels total_hits_def hits_values)
qed

lemma four_rows_tc3: "counter (process_a_tc3 four_rows) = [1000]"
proof -
  have "counter (process_a_tc3 four_rows) =
     map (\<lambda>i. counter four_rows ! i + total_hits (pixels (img four_rows)) (pixel_at (search four_rows) 0 i))
       [0..<length_img (search four_rows)]"
    by (rule process_a_tc3_counter) (simp_all add: four_rows_facts)
  then show ?thesis
    by (simp add: four_rows_facts four_rows_pixels total_hits_def hits_values)
qed

lemma two_rows_tc2:
  "th < 2 \<Longrightarrow> counter (process_a_tc2 2 (\<lambda>l. l) (\<lambda>i. th) two_rows) = [if th = 0 then 0 else 1000]"
  using process_a_tc2_counter [of two_rows "\<lambda>l. l" 2 "\<lambda>i. th"]
  by (auto simp: two_rows_facts thread_hits_def upt_4 hits_values)

lemma four_rows_tc2:
  "th < 2 \<Longrightarrow> counter (process_a_tc2 2 (\<lambda>l. l div 2) (\<lambda>i. th) four_rows) = [if th = 0 then 1000 else 0]"
  using process_a_tc2_counter [of four_rows "\<lambda>l. l div 2" 2 "\<lambda>i. th"]
  by (auto simp: four_rows_facts thread_hits_def upt_4 hits_values)

lemma two_rows_contrib: "row_contrib (\<lambda>l. l) 1 (calloc_local 2 two_rows) = [1000]"
  using row_contrib_eq [of two_rows "\<lambda>l. l" 2 1]
  by (simp add: two_rows_facts hits_values)

lemma four_rows_contrib: "row_contrib (\<lambda>l. l div 2) 1 (calloc_local 2 four_rows) = [1000]"
  using row_contrib_eq [of four_rows "\<lambda>l. l div 2" 2 1]
  by (simp add: four_rows_facts hits_values)

lemma shared_row_out:
  "pixels (img (rows_a_tc2 (\<lambda>l. l) (calloc_local 2 two_rows))) ! 1
     = pixels (img (rows_a_tc2 (\<lambda>l. l div 2) (calloc_local 2 four_rows))) ! 1"
  using rows_a_tc2_row [of two_rows "\<lambda>l. l" 2 1] rows_a_tc2_row [of four_rows "\<lambda>l. l div 2" 2 1]
  by (simp add: two_rows_facts four_rows_facts)

text \<open>
  C6 (the counts of a row depend on the other rows). Two inputs with the same row 1, a
  thousand pixels \<open>(10,20,30)\<close>, and the same search list \<open>[(10,20,30)]\<close>: a grid of two
  rows and a grid of four, whose other rows hold no match. Two threads, static schedule:
  of the two rows, thread 0 is given row 0 and thread 1 row 1; of the four rows, thread 0
  is given rows 0 and 1. In both runs the transformed row 1 is the same and its iteration
  adds 1000 to the array \<open>local\<close> of its thread, and process-a_tc3.c reports 1000 for both
  grids. The match counters process-a_tc2.c ends with are not the same: when thread 0
  executes the iteration 0 of the merge loop they are \<open>[0]\<close> for the two rows and \<open>[1000]\<close>
  for the four rows, and when thread 1 does, \<open>[1000]\<close> and \<open>[0]\<close>: the counts of row 1
  reach the counters only if the thread that ran the row is the one that merges.
\<close>

theorem C6_contribution_lost:
  "pixels (img two_rows) ! 1 = pixels (img four_rows) ! 1
   \<and> search two_rows = search four_rows
   \<and> pixels (img (rows_a_tc2 (\<lambda>l. l) (calloc_local 2 two_rows))) ! 1
        = pixels (img (rows_a_tc2 (\<lambda>l. l div 2) (calloc_local 2 four_rows))) ! 1
   \<and> row_contrib (\<lambda>l. l) 1 (calloc_local 2 two_rows) = [1000]
   \<and> row_contrib (\<lambda>l. l div 2) 1 (calloc_local 2 four_rows) = [1000]
   \<and> counter (process_a_tc3 two_rows) = [1000]
   \<and> counter (process_a_tc3 four_rows) = [1000]
   \<and> counter (process_a_tc2 2 (\<lambda>l. l) (\<lambda>i. 0) two_rows) = [0]
   \<and> counter (process_a_tc2 2 (\<lambda>l. l div 2) (\<lambda>i. 0) four_rows) = [1000]
   \<and> counter (process_a_tc2 2 (\<lambda>l. l) (\<lambda>i. 1) two_rows) = [1000]
   \<and> counter (process_a_tc2 2 (\<lambda>l. l div 2) (\<lambda>i. 1) four_rows) = [0]"
proof -
  have a: "pixels (img two_rows) ! 1 = pixels (img four_rows) ! 1"
    by (simp add: two_rows_facts four_rows_facts)
  have b: "search two_rows = search four_rows"
    by (simp add: two_rows_def four_rows_def)
  from a b shared_row_out two_rows_contrib four_rows_contrib two_rows_tc3 four_rows_tc3
    two_rows_tc2 [of 0] four_rows_tc2 [of 0] two_rows_tc2 [of 1] four_rows_tc2 [of 1]
  show ?thesis by simp
qed

subsection \<open>The phased executor\<close>

lemma search_body_tc2_img [simp]: "img (search_body_tc2 priv owner i s) = img s"
  by (simp add: search_body_tc2_def)

lemma search_body_tc2_search [simp]: "search (search_body_tc2 priv owner i s) = search s"
  by (simp add: search_body_tc2_def)

lemma search_tc2_img [simp]: "img (for_loop a n (search_body_tc2 priv owner) s) = img s"
  by (rule for_loop_invariant [where P = "\<lambda>s'. img s' = img s"]) simp_all

lemma search_tc2_search [simp]: "search (for_loop a n (search_body_tc2 priv owner) s) = search s"
  by (rule for_loop_invariant [where P = "\<lambda>s'. search s' = search s"]) simp_all

lemma pixel_b_tc2_img: "img (pixel_b_tc2 tm p s) = transform 0 p (img s)"
  by (simp add: pixel_b_tc2_def Let_def transform_tc_eq)

lemma img_pixel_b_tc2_loop:
  "img (for_loop 0 k (pixel_b_tc2 tm) s) = for_loop 0 k (transform 0) (img s)"
  by (induction k) (simp_all add: for_loop_Suc pixel_b_tc2_img)

text \<open>The grid the phased executor produces is the grid of the reference, for every team.\<close>

lemma process_b_tc2_img: "img (process_b_tc2 tm s) = img (process_b s)"
  by (simp add: process_b_tc2_def process_b_def img_pixel_b_tc2_loop img_pixel_b_loop)

text \<open>
  When the thread that runs an iteration of a search loop is the thread that executed the
  \<open>single\<close> block before it, as it is in a team of one thread, the search is the one of
  the reference.
\<close>

lemma search_tc2_captured:
  assumes "\<And>i. priv (owner i) = pixel_at (img s) l p"
  shows "for_loop 0 (length_img (search s)) (search_body_tc2 priv owner) s = search_loop l p s"
  unfolding search_loop_def
  by (rule for_loop_cong_inv [where I = "\<lambda>s'. img s' = img s"])
     (simp_all add: search_body_tc2_def search_body_def assms)

lemma pixel_b_tc2_same_thread:
  assumes "\<And>i. for_by tm p 0 i = single_by tm p 0" and "\<And>i. for_by tm p 1 i = single_by tm p 2"
  shows "pixel_b_tc2 tm p s = pixel_b p s"
proof -
  have a: "for_loop 0 (length_img (search s))
             (search_body_tc2 (capture tm p 0 0 (img s)) (for_by tm p 0)) s = search_loop 0 p s"
    by (rule search_tc2_captured) (simp add: capture_def assms)
  let ?s2 = "(search_loop 0 p s)\<lparr>img := transform_tc 0 p (img (search_loop 0 p s))\<rparr>"
  have b: "for_loop 0 (length_img (search ?s2))
             (search_body_tc2 (capture tm p 2 1 (img ?s2)) (for_by tm p 1)) ?s2 = search_loop 0 p ?s2"
    by (rule search_tc2_captured) (use assms(2) in \<open>simp add: capture_def\<close>)
  show ?thesis
    unfolding pixel_b_tc2_def pixel_b_def Let_def a b by (simp add: transform_tc_eq)
qed

lemma process_b_tc2_one_thread:
  assumes "wf_team tm" and "nthreads tm = 1"
  shows "process_b_tc2 tm s = process_b s"
proof -
  have z: "single_by tm p k = 0" "for_by tm p k i = 0" for p k i
    using assms by (simp_all add: wf_team_def)
  show ?thesis
    unfolding process_b_tc2_def process_b_def
    by (rule for_loop_cong_inv [where I = "\<lambda>s'. True"])
       (simp_all add: pixel_b_tc2_same_thread z)
qed

text \<open>
  C1 (the counters of the phased executor are not those of the reference). Input: the
  grid \<open>[(10,20,30)]\<close> and the search list \<open>[(10,20,30), (10,20,30)]\<close>, two threads,
  the search iteration 0 run by thread 0 and the iteration 1 by thread 1. The reference
  counts one match for each search entry. In process-b_tc2.c only the thread that
  executed the \<open>single\<close> block holds the pixel in \<open>r0, g0, b0\<close>; the other thread compares
  its own scalars, which were never assigned, and finds no match: the counters are
  \<open>[1, 0]\<close> when thread 0 executes the \<open>single\<close> blocks and \<open>[0, 1]\<close> when thread 1 does.
\<close>

theorem C1_private_scalars:
  "counter (process_b two_targets) = [1, 1]
   \<and> counter (process_b_tc2 (team2 0) two_targets) = [1, 0]
   \<and> counter (process_b_tc2 (team2 1) two_targets) = [0, 1]"
  by code_simp

subsection \<open>The tiled executor\<close>

lemma for_loop_split:
  "a \<le> m \<Longrightarrow> m \<le> n \<Longrightarrow> for_loop a n body s = for_loop m n body (for_loop a m body s)"
proof -
  assume am: "a \<le> m" and mn: "m \<le> n"
  have "[a..<m + (n - m)] = [a..<m] @ [m..<m + (n - m)]"
    using am by (rule upt_add_eq_append)
  then show ?thesis using mn by (simp add: for_loop_fold)
qed

lemma local_incr_frame [simp]:
  "img (local_incr t i s) = img s" "search (local_incr t i s) = search s"
  "counter (local_incr t i s) = counter s"
  by (simp_all add: local_incr_def)

lemma tiles_cover:
  fixes n T :: nat
  assumes "0 < T"
  shows "n \<le> (n + T - 1) div T * T"
proof -
  have "n + T - 1 < T + (n + T - 1) div T * T"
    using assms by (rule dividend_less_div_times)
  then show ?thesis by simp
qed

lemma tile_start_less:
  fixes n T k :: nat
  assumes "0 < T" and "k < (n + T - 1) div T"
  shows "k * T < n"
proof -
  have "Suc k \<le> (n + T - 1) div T" using assms(2) by simp
  then have "Suc k * T \<le> n + T - 1"
    using assms(1) by (simp add: less_eq_div_iff_mult_less_eq)
  then show ?thesis using assms(1) by simp
qed

text \<open>
  The tiles cut the index range into consecutive pieces: scanned by one thread, tile after
  tile, they are the loop over all search indices.
\<close>

lemma tiles_loop:
  assumes T: "0 < T" and k: "k \<le> (length_img (search s) + T - 1) div T"
  shows "for_loop 0 k (tile_body T priv (\<lambda>tb. t)) s =
         for_loop 0 (min (k * T) (length_img (search s)))
           (\<lambda>i s. if px_match (priv t) (pixel_at (search s) 0 i) then local_incr t i s else s) s"
  using k
proof (induction k)
  case 0
  then show ?case by simp
next
  case (Suc k)
  let ?n = "length_img (search s)"
  let ?body = "\<lambda>i s. if px_match (priv t) (pixel_at (search s) 0 i) then local_incr t i s else s"
  let ?S = "for_loop 0 (k * T) ?body s"
  have kT: "k * T < ?n" using T Suc.prems by (simp add: tile_start_less)
  have m: "min (k * T) ?n = k * T" using kT by simp
  have IH: "for_loop 0 k (tile_body T priv (\<lambda>tb. t)) s = ?S" using Suc m by simp
  have sS: "search ?S = search s"
    by (rule for_loop_invariant [where P = "\<lambda>s'. search s' = search s"]) simp_all
  have "tile_body T priv (\<lambda>tb. t) k ?S = for_loop (k * T) (min (k * T + T) ?n) ?body ?S"
    by (auto simp: tile_body_def Let_def sS min_def)
  also have "\<dots> = for_loop 0 (min (k * T + T) ?n) ?body s"
    using kT for_loop_split [of 0 "k * T" "min (k * T + T) ?n" ?body s] by simp
  finally have "tile_body T priv (\<lambda>tb. t) k ?S = for_loop 0 (min (k * T + T) ?n) ?body s" .
  then show ?case by (simp add: for_loop_Suc IH add.commute)
qed

lemma tiled_search_one_thread:
  assumes "0 < T"
  shows "tiled_search T priv (\<lambda>tb. t) s =
         for_loop 0 (length_img (search s))
           (\<lambda>i s. if px_match (priv t) (pixel_at (search s) 0 i) then local_incr t i s else s) s"
  using tiles_loop [OF assms order_refl, of s priv t] tiles_cover [OF assms, of "length_img (search s)"]
  by (simp add: tiled_search_def Let_def min_def)

lemma tiled_search_captured:
  assumes "0 < T" and "priv t = pixel_at (img s) l p"
  shows "tiled_search T priv (\<lambda>tb. t) s = search_local t l p s"
  unfolding tiled_search_one_thread [OF assms(1)] search_local_def
  by (rule for_loop_cong_inv [where I = "\<lambda>s'. img s' = img s"]) (simp_all add: assms(2))

lemma search_local_img [simp]: "img (search_local t l p s) = img s"
  unfolding search_local_def
  by (rule for_loop_invariant [where P = "\<lambda>s'. img s' = img s"]) simp_all

lemma pixel_b_tc4_one_thread:
  assumes "0 < T" and "wf_team tm" and "nthreads tm = 1"
  shows "pixel_b_tc4 T tm p s = pixel_a_tc2 0 0 p s"
proof -
  have z: "single_by tm p k = 0" "for_by tm p k = (\<lambda>tb. 0)" for p k
    using assms by (simp_all add: wf_team_def fun_eq_iff)
  have a: "tiled_search T (capture tm p 0 0 (img s)) (\<lambda>tb. 0) s = search_local 0 0 p s"
    by (rule tiled_search_captured) (simp_all add: assms capture_def z)
  let ?s2 = "(search_local 0 0 p s)\<lparr>img := transform_tc 0 p (img (search_local 0 0 p s))\<rparr>"
  have b: "tiled_search T (capture tm p 2 1 (img ?s2)) (\<lambda>tb. 0) ?s2 = search_local 0 0 p ?s2"
    by (rule tiled_search_captured) (simp_all add: assms capture_def z)
  show ?thesis
    unfolding pixel_b_tc4_def pixel_a_tc2_def Let_def z a b ..
qed

lemma pixel_b_eq_a_tc3: "pixel_b p s = pixel_a_tc3 0 p s"
  by (simp add: pixel_b_def pixel_a_tc3_def transform_tc_eq)

lemma process_b_row: "process_b s = row_a_tc3 0 s"
  unfolding process_b_def row_a_tc3_def
  by (rule for_loop_cong_inv [where I = "\<lambda>s'. True"]) (simp_all add: pixel_b_eq_a_tc3)

text \<open>
  With one thread the tiled executor gives the grid and the counters of the reference,
  for every tile size.
\<close>

lemma process_b_tc4_one_thread:
  assumes T: "0 < T" and tm: "wf_team tm" "nthreads tm = 1"
    and row: "pixels (img s) \<noteq> []" "length (pixels (img s) ! 0) = linesize (img s)"
    and len: "length (counter s) = length_img (search s)"
  shows "img (process_b_tc4 T tm s) = img (process_b s)
       \<and> counter (process_b_tc4 T tm s) = counter (process_b s)"
proof -
  let ?S0 = "calloc_local (Suc 0) s"
  have loop: "for_loop 0 (linesize (img ?S0)) (pixel_b_tc4 T tm) ?S0 = row_a_tc2 (\<lambda>l. 0) 0 ?S0"
    unfolding row_a_tc2_def
    by (rule for_loop_cong_inv [where I = "\<lambda>s'. True"])
       (simp_all add: pixel_b_tc4_one_thread [OF T tm])
  have r2: "row_a_tc2 (\<lambda>l. 0) 0 ?S0 =
     ?S0\<lparr>img := (img ?S0)\<lparr>pixels := (pixels (img ?S0))[0 := row_out (pixels (img ?S0) ! 0)]\<rparr>,
       local := (local ?S0)[0 :=
                  map (\<lambda>i. local ?S0 ! 0 ! i + row_hits (pixels (img ?S0) ! 0) (pixel_at (search ?S0) 0 i))
                    [0..<length_img (search ?S0)]]\<rparr>"
    by (rule row_a_tc2_eq) (use row in simp_all)
  have r3: "process_b s =
     s\<lparr>img := (img s)\<lparr>pixels := (pixels (img s))[0 := row_out (pixels (img s) ! 0)]\<rparr>,
       counter := map (\<lambda>i. counter s ! i + row_hits (pixels (img s) ! 0) (pixel_at (search s) 0 i))
                    [0..<length_img (search s)]\<rparr>"
    unfolding process_b_row by (rule row_a_tc3_eq) (use row len in simp_all)
  have mc: "merge_critical 0 s' = merge_for (\<lambda>i. 0) s'" for s'
    by (simp add: merge_critical_def merge_for_def)
  have "process_b_tc4 T tm s = merge_for (\<lambda>i. 0) (row_a_tc2 (\<lambda>l. 0) 0 ?S0)"
    using tm(2) loop by (simp add: process_b_tc4_def Let_def for_loop_Suc [of 0 0, simplified] mc)
  then show ?thesis
    using len by (simp add: r2 r3 merge_for_eq cong: map_cong)
qed

text \<open>
  C5 (the counters of the tiled executor depend on the tile size). Input: the grid
  \<open>[(10,20,30)]\<close> and the search list \<open>[(10,20,30), (10,20,30)]\<close>, two threads, the tile
  \<open>tb\<close> scanned by the thread \<open>tb mod 2\<close>. The reference counts \<open>[1, 1]\<close>. When thread 0
  executes the \<open>single\<close> blocks, the tile size 2 gives \<open>[1, 1]\<close> (one tile, scanned by
  thread 0) and the tile size 1 gives \<open>[1, 0]\<close> (the second tile is scanned by thread 1,
  whose scalars were never assigned); when thread 1 executes them, the tile size 1
  gives \<open>[0, 1]\<close> and the tile size 2 gives \<open>[0, 0]\<close>.
\<close>

theorem C5_tile_size_changes_counts:
  "counter (process_b two_targets) = [1, 1]
   \<and> counter (process_b_tc4 1 (team2 0) two_targets) = [1, 0]
   \<and> counter (process_b_tc4 2 (team2 0) two_targets) = [1, 1]
   \<and> counter (process_b_tc4 1 (team2 1) two_targets) = [0, 1]
   \<and> counter (process_b_tc4 2 (team2 1) two_targets) = [0, 0]"
  by code_simp

subsection \<open>Loading\<close>

lemma load_body_nonempty:
  assumes "0 < n"
  shows "load_body file n 0 l p st =
     (if ld_pos st < length file
      then st\<lparr>ld_img := set_pixel (ld_img st) l p (file ! ld_pos st), ld_pos := ld_pos st + 1\<rparr>
      else st)"
  using assms by (simp add: load_body_def)

lemma load_row:
  assumes n: "0 < length file"
    and l: "l < length (pixels (ld_img st))"
    and len: "length (pixels (ld_img st) ! l) = ls"
    and pos: "ld_pos st = min base (length file)"
    and k: "k \<le> ls"
  shows "for_loop 0 k (load_body file (length file) 0 l) st =
     st\<lparr>ld_img := (ld_img st)\<lparr>pixels := (pixels (ld_img st))
               [l := map (\<lambda>p. if p < k \<and> base + p < length file then file ! (base + p)
                               else pixels (ld_img st) ! l ! p) [0..<ls]]\<rparr>,
        ld_pos := min (base + k) (length file)\<rparr>"
  using k
proof (induction k)
  case 0
  have "map ((!) (pixels (ld_img st) ! l)) [0..<ls] = pixels (ld_img st) ! l"
    using len map_nth [of "pixels (ld_img st) ! l"] by simp
  then show ?case using pos by (simp add: list_update_same_conv [THEN iffD2])
next
  case (Suc k)
  let ?n = "length file"
  let ?row = "\<lambda>k. map (\<lambda>p. if p < k \<and> base + p < ?n then file ! (base + p)
                               else pixels (ld_img st) ! l ! p) [0..<ls]"
  let ?S = "st\<lparr>ld_img := (ld_img st)\<lparr>pixels := (pixels (ld_img st))[l := ?row k]\<rparr>,
        ld_pos := min (base + k) ?n\<rparr>"
  have k: "k < ls" using Suc.prems by simp
  have IH: "for_loop 0 k (load_body file ?n 0 l) st = ?S" using Suc by simp
  have upd: "(?row k)[k := file ! (base + k)] = ?row (Suc k)" if "base + k < ?n"
    using that k by (auto intro!: nth_equalityI simp: nth_list_update less_Suc_eq)
  have same: "?row (Suc k) = ?row k" if "\<not> base + k < ?n"
  proof (rule map_cong [OF refl])
    fix p
    show "(if p < Suc k \<and> base + p < ?n then file ! (base + p) else pixels (ld_img st) ! l ! p)
        = (if p < k \<and> base + p < ?n then file ! (base + p) else pixels (ld_img st) ! l ! p)"
      using that by (auto simp: less_Suc_eq)
  qed
  have step: "for_loop 0 (Suc k) (load_body file ?n 0 l) st = load_body file ?n 0 l k ?S"
    by (simp only: for_loop_Suc [OF le0] IH)
  show ?case
  proof (cases "base + k < ?n")
    case True
    then have m: "min (base + k) ?n = base + k" "min (Suc (base + k)) ?n = Suc (base + k)" by simp_all
    have "load_body file ?n 0 l k ?S =
       st\<lparr>ld_img := (ld_img st)\<lparr>pixels := (pixels (ld_img st))[l := ?row (Suc k)]\<rparr>,
          ld_pos := min (base + Suc k) ?n\<rparr>"
      using True l n by (simp add: load_body_nonempty set_pixel_def m upd)
    then show ?thesis unfolding step .
  next
    case False
    then have m: "min (base + k) ?n = ?n" "min (base + Suc k) ?n = ?n" by simp_all
    have a: "load_body file ?n 0 l k ?S = ?S"
      using False n by (simp add: load_body_nonempty m)
    have b: "?S = st\<lparr>ld_img := (ld_img st)\<lparr>pixels := (pixels (ld_img st))[l := ?row (Suc k)]\<rparr>,
          ld_pos := min (base + Suc k) ?n\<rparr>"
      unfolding same [OF False] m ..
    show ?thesis unfolding step by (rule trans [OF a b])
  qed
qed

lemma load_rows:
  assumes n: "0 < length file"
    and px: "pixels im = map (\<lambda>l. map (mem l) [0..<ls]) [0..<nl]"
    and j: "j \<le> nl"
  shows "for_loop 0 j (\<lambda>l. for_loop 0 ls (load_body file (length file) 0 l)) \<lparr>ld_img = im, ld_pos = 0\<rparr> =
     \<lparr>ld_img = im\<lparr>pixels := loaded_pixels file mem j ls @ drop j (pixels im)\<rparr>,
      ld_pos = min (j * ls) (length file)\<rparr>"
  using j
proof (induction j)
  case 0
  then show ?case by (simp add: loaded_pixels_def)
next
  case (Suc j)
  let ?n = "length file"
  let ?S = "\<lparr>ld_img = im\<lparr>pixels := loaded_pixels file mem j ls @ drop j (pixels im)\<rparr>,
      ld_pos = min (j * ls) ?n\<rparr>"
  have j: "j < nl" using Suc.prems by simp
  have IH: "for_loop 0 j (\<lambda>l. for_loop 0 ls (load_body file ?n 0 l)) \<lparr>ld_img = im, ld_pos = 0\<rparr> = ?S"
    using Suc by simp
  have lenj: "length (loaded_pixels file mem j ls) = j" by (simp add: loaded_pixels_def)
  have rowj: "pixels (ld_img ?S) ! j = map (mem j) [0..<ls]"
    using j lenj by (simp add: nth_append px)
  have "for_loop 0 ls (load_body file ?n 0 j) ?S =
     ?S\<lparr>ld_img := (ld_img ?S)\<lparr>pixels := (pixels (ld_img ?S))
               [j := map (\<lambda>p. if p < ls \<and> j * ls + p < ?n then file ! (j * ls + p)
                               else pixels (ld_img ?S) ! j ! p) [0..<ls]]\<rparr>,
        ld_pos := min (j * ls + ls) ?n\<rparr>"
    by (rule load_row) (use n j lenj rowj in \<open>simp_all add: px\<close>)
  also have "map (\<lambda>p. if p < ls \<and> j * ls + p < ?n then file ! (j * ls + p)
                               else pixels (ld_img ?S) ! j ! p) [0..<ls]
      = map (\<lambda>p. if j * ls + p < ?n then file ! (j * ls + p) else mem j p) [0..<ls]"
    using rowj by simp
  finally have row: "for_loop 0 ls (load_body file ?n 0 j) ?S =
     ?S\<lparr>ld_img := (ld_img ?S)\<lparr>pixels := (pixels (ld_img ?S))
               [j := map (\<lambda>p. if j * ls + p < ?n then file ! (j * ls + p) else mem j p) [0..<ls]]\<rparr>,
        ld_pos := min (j * ls + ls) ?n\<rparr>" .
  have lp: "loaded_pixels file mem (Suc j) ls =
      loaded_pixels file mem j ls
      @ [map (\<lambda>p. if j * ls + p < ?n then file ! (j * ls + p) else mem j p) [0..<ls]]"
    by (simp add: loaded_pixels_def)
  have dr: "drop j (pixels im) = pixels im ! j # drop (Suc j) (pixels im)"
  proof -
    have "j < length (pixels im)" using j by (simp add: px)
    then show ?thesis by (simp add: Cons_nth_drop_Suc)
  qed
  have upd: "(loaded_pixels file mem j ls @ drop j (pixels im))[j := r]
      = loaded_pixels file mem (Suc j) ls @ drop (Suc j) (pixels im)"
    if "r = map (\<lambda>p. if j * ls + p < ?n then file ! (j * ls + p) else mem j p) [0..<ls]" for r
    unfolding lp dr using lenj that by (simp add: list_update_append)
  have "for_loop 0 (Suc j) (\<lambda>l. for_loop 0 ls (load_body file ?n 0 l)) \<lparr>ld_img = im, ld_pos = 0\<rparr>
      = for_loop 0 ls (load_body file ?n 0 j) ?S"
    by (simp only: for_loop_Suc [OF le0] IH)
  then show ?case
    unfolding row by (simp add: upd add.commute)
qed

lemma init_line_NONE: "for_loop 0 nl (init_line env NONE) st = st"
  by (rule for_loop_invariant [where P = "\<lambda>s'. s' = st"]) (simp_all add: init_line_def)

lemma LoadFile_eq:
  assumes f: "files env f = Some file" and n: "file \<noteq> []"
    and ok: "lines_alloc_ok env" "\<And>l. row_alloc_ok env l"
    and sh: "ImageData_shape (length file) ls = (nl, len1, ls1)"
  shows "LoadFile env a (Some f) ls =
     Inr \<lparr>length_img = len1, lines = nl, linesize = ls1,
          pixels = loaded_pixels file (heap env a) nl ls1\<rparr>"
proof -
  let ?im = "\<lparr>length_img = len1, lines = nl, linesize = ls1,
               pixels = map (\<lambda>l. map (heap env a l) [0..<ls1]) [0..<nl]\<rparr>"
  have ex: "\<not> list_ex (\<lambda>l. \<not> row_alloc_ok env l) [0..<nl]"
    using ok(2) by (simp add: list_ex_iff)
  have im: "ImageData env a (length file) ls NONE = Inr ?im"
    using ok(1) ex by (simp add: ImageData_def sh init_line_NONE)
  have "for_loop 0 nl (\<lambda>l. for_loop 0 ls1 (load_body file (length file) 0 l)) \<lparr>ld_img = ?im, ld_pos = 0\<rparr> =
     \<lparr>ld_img = ?im\<lparr>pixels := loaded_pixels file (heap env a) nl ls1 @ drop nl (pixels ?im)\<rparr>,
      ld_pos = min (nl * ls1) (length file)\<rparr>"
    by (rule load_rows [where mem = "heap env a" and nl = nl and j = nl]) (use n in simp_all)
  then show ?thesis
    by (simp add: LoadFile_def fopen_read_def f im Let_def)
qed

lemma loaded_pixels_one_line:
  assumes "length file \<le> ls"
  shows "loaded_pixels file mem 1 ls = [file @ map (mem 0) [length file..<ls]]"
proof -
  let ?g = "\<lambda>p. if p < length file then file ! p else mem 0 p"
  have "[0..<length file + (ls - length file)] = [0..<length file] @ [length file..<length file + (ls - length file)]"
    by (rule upt_add_eq_append) simp
  then have s: "[0..<ls] = [0..<length file] @ [length file..<ls]"
    using assms by simp
  have a: "map ?g [0..<length file] = file"
    by (auto intro!: nth_equalityI)
  have b: "map ?g [length file..<ls] = map (mem 0) [length file..<ls]"
    by simp
  have "map ?g [0..<ls] = file @ map (mem 0) [length file..<ls]"
    unfolding s map_append a b ..
  then show ?thesis by (simp add: loaded_pixels_def cong: if_cong)
qed

lemma load_in_raw_1000:
  "LoadFile env_demo 0 (Some ''in.raw'') 1000
     = Inr \<lparr>length_img = 1000, lines = 1, linesize = 1000,
            pixels = [[\<lparr>red = 1, green = 2, blue = 3\<rparr>, \<lparr>red = 4, green = 5, blue = 6\<rparr>,
                       \<lparr>red = 7, green = 8, blue = 9\<rparr>]
                      @ replicate 997 \<lparr>red = 7, green = 7, blue = 7\<rparr>]\<rparr>"
proof -
  let ?file = "[\<lparr>red = 1, green = 2, blue = 3\<rparr>, \<lparr>red = 4, green = 5, blue = 6\<rparr>,
                \<lparr>red = 7, green = 8, blue = 9\<rparr>]"
  have f: "files env_demo ''in.raw'' = Some ?file" by (simp add: env_demo_def)
  have ok: "lines_alloc_ok env_demo" "\<And>l. row_alloc_ok env_demo l" by (simp_all add: env_demo_def)
  have sh: "ImageData_shape (length ?file) 1000 = (1, 1000, 1000)"
    by (simp add: ImageData_shape_def)
  have h: "heap env_demo 0 0 = (\<lambda>p. \<lparr>red = 7, green = 7, blue = 7\<rparr>)" by (simp add: env_demo_def)
  have "loaded_pixels ?file (heap env_demo 0) 1 1000
      = [?file @ map (heap env_demo 0 0) [length ?file..<1000]]"
    by (rule loaded_pixels_one_line) simp
  then have lp: "loaded_pixels ?file (heap env_demo 0) 1 1000
      = [?file @ replicate 997 \<lparr>red = 7, green = 7, blue = 7\<rparr>]"
    unfolding h by (simp add: map_replicate_const)
  have "LoadFile env_demo 0 (Some ''in.raw'') 1000 =
     Inr \<lparr>length_img = 1000, lines = 1, linesize = 1000,
          pixels = loaded_pixels ?file (heap env_demo 0) 1 1000\<rparr>"
    by (rule LoadFile_eq [OF f _ ok sh]) simp
  then show ?thesis unfolding lp .
qed

text \<open>The grid of \<open>rows2000\<close> is what \<open>LoadFile\<close> returns for a file of 2000 pixels \<open>(10,20,30)\<close>.\<close>

lemma rows2000_loaded:
  assumes "files env f = Some (replicate 2000 \<lparr>red = 10, green = 20, blue = 30\<rparr>)"
    and "lines_alloc_ok env" and "\<And>l. row_alloc_ok env l"
  shows "LoadFile env a (Some f) 1000 = Inr (img rows2000)"
proof -
  let ?px = "\<lparr>red = 10, green = 20, blue = 30\<rparr>"
  have sh: "ImageData_shape (length (replicate 2000 ?px)) 1000 = (2, 2000, 1000)"
    by (simp add: ImageData_shape_def)
  have "loaded_pixels (replicate 2000 ?px) (heap env a) 2 1000 = replicate 2 (replicate 1000 ?px)"
    by (auto simp: loaded_pixels_def intro!: nth_equalityI simp: less_Suc_eq numeral_2_eq_2)
  then show ?thesis
    using LoadFile_eq [OF assms(1) _ assms(2,3) sh, of a] by (simp add: rows2000_def)
qed

subsection \<open>The main function of process-b.c, and loading\<close>

text \<open>
  C7 (two arguments are accepted). With one argument after the program name, \<open>main\<close> of
  process-b.c ends in the usage error and opens no file. With two, \<open>in.raw\<close> and
  \<open>out.raw\<close>, the test \<open>ac < 3\<close> lets the run through: the input file is opened and
  loaded, and the run ends only when the third name, the null pointer \<open>av[3]\<close>, cannot be
  opened.
\<close>

theorem C7_two_arguments_accepted:
  "main_b env_demo [''process-b'', ''in.raw'']
     = ([], Fatal ''Usage: create in_filename out_filename search_filename'')
   \<and> main_b env_demo [''process-b'', ''in.raw'', ''out.raw'']
     = ([Some ''in.raw'', None], Fatal ''Cannot open file for reading'')"
  by code_simp

text \<open>
  C8 (the counter allocation is not checked). When \<open>malloc\<close> returns the null pointer
  for the counter array and the search list has one pixel, process-b.c writes
  \<open>counter[0]\<close> through the null pointer after both files were loaded, where the
  variants end with the message \<open>malloc failed for counter\<close>.
\<close>

theorem C8_counter_allocation_unchecked:
  "main_b (env_demo\<lparr>counter_alloc_ok := False\<rparr>)
       [''process-b'', ''in.raw'', ''out.raw'', ''search.raw'']
     = ([Some ''in.raw'', Some ''search.raw''], NullDeref)
   \<and> alloc_counter_b (env_demo\<lparr>counter_alloc_ok := False\<rparr>) 1 = Inl NullDeref
   \<and> alloc_counter_tc (env_demo\<lparr>counter_alloc_ok := False\<rparr>) 1
        = Inl (Fatal ''malloc failed for counter'')"
  by code_simp

text \<open>
  C10 (the padding is not set to zero). A file of three pixels loaded with the line size
  2 gives two lines of two pixels; the fourth pixel, the padding, is not \<open>(0,0,0)\<close> but
  \<open>(7,7,7)\<close>, what the allocated memory held: \<open>counter\<close> stays 0 in \<open>LoadFile\<close>, so every
  pixel is read with \<open>fread\<close>, which reads nothing at the end of the file. The search
  for \<open>(0,0,0)\<close> then counts no match on the loaded grid. Loaded with the line size 1000
  of the row-parallel variants, the same file gives one line whose 997 padding pixels
  are \<open>(7,7,7)\<close>.
\<close>

theorem C10_padding_not_zeroed:
  "LoadFile env_demo 0 (Some ''in.raw'') 2
     = Inr \<lparr>length_img = 4, lines = 2, linesize = 2,
            pixels = [[\<lparr>red = 1, green = 2, blue = 3\<rparr>, \<lparr>red = 4, green = 5, blue = 6\<rparr>],
                      [\<lparr>red = 7, green = 8, blue = 9\<rparr>, \<lparr>red = 7, green = 7, blue = 7\<rparr>]]\<rparr>
   \<and> (case (LoadFile env_demo 0 (Some ''in.raw'') 2, LoadFile env_demo 1 (Some ''search.raw'') 0) of
         (Inr im, Inr srch) \<Rightarrow>
            counter (process_a_tc3 \<lparr>img = im, search = srch, counter = [0]\<rparr>) = [0]
       | _ \<Rightarrow> False)
   \<and> LoadFile env_demo 0 (Some ''in.raw'') 1000
     = Inr \<lparr>length_img = 1000, lines = 1, linesize = 1000,
            pixels = [[\<lparr>red = 1, green = 2, blue = 3\<rparr>, \<lparr>red = 4, green = 5, blue = 6\<rparr>,
                       \<lparr>red = 7, green = 8, blue = 9\<rparr>]
                      @ replicate 997 \<lparr>red = 7, green = 7, blue = 7\<rparr>]\<rparr>"
proof -
  have a: "LoadFile env_demo 0 (Some ''in.raw'') 2
     = Inr \<lparr>length_img = 4, lines = 2, linesize = 2,
            pixels = [[\<lparr>red = 1, green = 2, blue = 3\<rparr>, \<lparr>red = 4, green = 5, blue = 6\<rparr>],
                      [\<lparr>red = 7, green = 8, blue = 9\<rparr>, \<lparr>red = 7, green = 7, blue = 7\<rparr>]]\<rparr>"
    by code_simp
  have b: "(case (LoadFile env_demo 0 (Some ''in.raw'') 2, LoadFile env_demo 1 (Some ''search.raw'') 0) of
         (Inr im, Inr srch) \<Rightarrow>
            counter (process_a_tc3 \<lparr>img = im, search = srch, counter = [0]\<rparr>) = [0]
       | _ \<Rightarrow> False)"
    by code_simp
  from a b load_in_raw_1000 show ?thesis by (intro conjI)
qed

end
